theory Spec2Isabelle
  imports Complex_Main
begin

section \<open>Data model of the factor graph\<close>

text \<open>
  The solver of \<^verbatim>\<open>src/src/Solver.cpp\<close> works on a factor graph whose variables, clauses
  and edges are heap objects that point at each other (\<^verbatim>\<open>Variable*\<close>, \<^verbatim>\<open>Clause*\<close>,
  \<^verbatim>\<open>Edge*\<close>).  A pointer is an address; the heap is one store per object kind.  The
  vectors \<^verbatim>\<open>fg->variables\<close>, \<^verbatim>\<open>fg->clauses\<close>, \<^verbatim>\<open>fg->edges\<close> and
  \<^verbatim>\<open>allNeighbourEdges\<close> are lists of addresses.

  A C++ \<^verbatim>\<open>double\<close> is modelled as a real number, as the specification's data model has
  it.  A real number has no NaN and no infinity, so a division whose divisor is zero is a
  value of its own in the model: the computation stops there with \<open>Inl DivisionByZero\<close>.
  A field is prefixed with the first letter of its class (\<open>v_\<close>, \<open>c_\<close>, \<open>e_\<close>), since
  the three classes share field names.
\<close>

type_synonym addr = nat

record Variable =
  v_assigned :: bool
  v_value :: bool
  v_p :: real
  v_m :: real
  v_pzero :: int
  v_mzero :: int
  v_Hp :: real
  v_Hm :: real
  v_Hz :: real
  v_evalValue :: real
  v_allNeighbourEdges :: "addr list"

record Clause =
  c_enabled :: bool
  c_allNeighbourEdges :: "addr list"

record Edge =
  e_variable :: addr
  e_clause :: addr
  e_type :: bool
  e_enabled :: bool
  e_survey :: real

record FactorGraph =
  variables :: "addr list"
  clauses :: "addr list"
  edges :: "addr list"
  var_h :: "addr \<Rightarrow> Variable"
  clause_h :: "addr \<Rightarrow> Clause"
  edge_h :: "addr \<Rightarrow> Edge"

datatype anomaly = DivisionByZero | IndexOutOfRange

text \<open>
  Modelled from the spec: \<^verbatim>\<open>ZERO_EPSILON\<close> is a constant of the missing header
  \<^verbatim>\<open>Solver.hpp\<close>; the specification gives it as the fixed small constant 1e-16.
\<close>

definition ZERO_EPSILON :: real where
  "ZERO_EPSILON = 1 / 10 ^ 16"

section \<open>Bias evaluation\<close>

text \<open>
  \<^verbatim>\<open>Solver::evaluateVar\<close>.  \<open>biasSum\<close> is the local \<^verbatim>\<open>sum\<close> the three biases are
  divided by.
\<close>

definition biasP :: "Variable \<Rightarrow> real" where
  "biasP var = (if v_pzero var \<noteq> 0 then 0 else v_p var)"

definition biasM :: "Variable \<Rightarrow> real" where
  "biasM var = (if v_mzero var \<noteq> 0 then 0 else v_m var)"

definition biasSum :: "Variable \<Rightarrow> real" where
  "biasSum var =
     (let p = biasP var; m = biasM var; hz = p * m; hp = m - hz; hm = p - hz
      in hm + hz + hp)"

definition evaluateVar :: "Variable \<Rightarrow> anomaly + Variable" where
  "evaluateVar var =
     (let p = biasP var; m = biasM var;
          hz = p * m; hp = m - hz; hm = p - hz;
          sum = hm + hz + hp
      in if sum = 0 then Inl DivisionByZero
         else Inr (var\<lparr>v_Hz := hz / sum, v_Hp := hp / sum, v_Hm := hm / sum,
                       v_evalValue := \<bar>hp / sum - hm / sum\<bar>\<rparr>))"

section \<open>Subproducts from scratch\<close>

text \<open>
  \<^verbatim>\<open>Solver::computeSubProducts\<close>.  \<open>subProductStep\<close> is the body of the inner loop
  over \<^verbatim>\<open>var->allNeighbourEdges\<close>, \<open>subProductsLoop\<close> the inner loop.
\<close>

definition subProductStep :: "Edge \<Rightarrow> Variable \<Rightarrow> Variable" where
  "subProductStep edge var =
     (if e_enabled edge then
        (if e_type edge then
           (if 1 - e_survey edge > ZERO_EPSILON
            then var\<lparr>v_p := v_p var * (1 - e_survey edge)\<rparr>
            else var\<lparr>v_pzero := v_pzero var + 1\<rparr>)
         else
           (if 1 - e_survey edge > ZERO_EPSILON
            then var\<lparr>v_m := v_m var * (1 - e_survey edge)\<rparr>
            else var\<lparr>v_mzero := v_mzero var + 1\<rparr>))
      else var)"

fun subProductsLoop :: "(addr \<Rightarrow> Edge) \<Rightarrow> addr list \<Rightarrow> Variable \<Rightarrow> Variable" where
  "subProductsLoop eh [] var = var"
| "subProductsLoop eh (e # es) var = subProductsLoop eh es (subProductStep (eh e) var)"

definition computeSubProductsVar :: "(addr \<Rightarrow> Edge) \<Rightarrow> Variable \<Rightarrow> Variable" where
  "computeSubProductsVar eh var =
     (if \<not> v_assigned var
      then subProductsLoop eh (v_allNeighbourEdges var)
             (var\<lparr>v_p := 1, v_m := 1, v_pzero := 0, v_mzero := 0\<rparr>)
      else var)"

fun computeSubProductsLoop :: "addr list \<Rightarrow> FactorGraph \<Rightarrow> FactorGraph" where
  "computeSubProductsLoop [] g = g"
| "computeSubProductsLoop (v # vs) g =
     computeSubProductsLoop vs
       (g\<lparr>var_h := (var_h g)(v := computeSubProductsVar (edge_h g) (var_h g v))\<rparr>)"

definition computeSubProducts :: "FactorGraph \<Rightarrow> FactorGraph" where
  "computeSubProducts g = computeSubProductsLoop (variables g) g"

section \<open>The per-clause survey update\<close>

text \<open>
  \<^verbatim>\<open>updateSurveys\<close>, first loop.  \<open>edgeWeights\<close> computes the pair \<open>(wn, wt)\<close> of one
  enabled edge, \<open>subSurveyOf\<close> the quotient \<open>wn / (wn + wt)\<close>, and
  \<open>subSurveysLoop\<close> runs over \<^verbatim>\<open>clause->allNeighbourEdges\<close> with the accumulator
  \<open>(zeros, allSubSurveys, subSurveys)\<close>.
\<close>

definition edgeWeights :: "Variable \<Rightarrow> Edge \<Rightarrow> anomaly + (real \<times> real)" where
  "edgeWeights var edge =
     (if e_type edge then
        (let m = (if v_mzero var \<noteq> 0 then 0 else v_m var) in
         if v_pzero var = 0 then
           (if 1 - e_survey edge = 0 then Inl DivisionByZero
            else (let p = v_p var / (1 - e_survey edge) in Inr (p * (1 - m), m)))
         else if v_pzero var = 1 \<and> 1 - e_survey edge < ZERO_EPSILON then
           (let p = v_p var in Inr (p * (1 - m), m))
         else
           (let p = 0 in Inr (p * (1 - m), m)))
      else
        (let p = (if v_pzero var \<noteq> 0 then 0 else v_p var) in
         if v_mzero var = 0 then
           (if 1 - e_survey edge = 0 then Inl DivisionByZero
            else (let m = v_m var / (1 - e_survey edge) in Inr (m * (1 - p), m)))
         else if v_mzero var = 1 \<and> 1 - e_survey edge < ZERO_EPSILON then
           (let m = v_m var in Inr (m * (1 - p), m))
         else
           (let m = 0 in Inr (m * (1 - p), m))))"

definition subSurveyOf :: "Variable \<Rightarrow> Edge \<Rightarrow> anomaly + real" where
  "subSurveyOf var edge =
     (case edgeWeights var edge of
        Inl a \<Rightarrow> Inl a
      | Inr (wn, wt) \<Rightarrow> if wn + wt = 0 then Inl DivisionByZero else Inr (wn / (wn + wt)))"

fun subSurveysLoop ::
  "FactorGraph \<Rightarrow> addr list \<Rightarrow> int \<times> real \<times> real list \<Rightarrow> anomaly + (int \<times> real \<times> real list)"
where
  "subSurveysLoop g [] acc = Inr acc"
| "subSurveysLoop g (e # es) (zeros, allSubSurveys, subSurveys) =
     (if e_enabled (edge_h g e) then
        (case subSurveyOf (var_h g (e_variable (edge_h g e))) (edge_h g e) of
           Inl a \<Rightarrow> Inl a
         | Inr subSurvey \<Rightarrow>
             if subSurvey < ZERO_EPSILON
             then subSurveysLoop g es (zeros + 1, allSubSurveys, subSurveys @ [subSurvey])
             else subSurveysLoop g es
                    (zeros, allSubSurveys * subSurvey, subSurveys @ [subSurvey]))
      else subSurveysLoop g es (zeros, allSubSurveys, subSurveys))"

text \<open>
  \<^verbatim>\<open>updateSurveys\<close>, second loop.  \<open>newSurveyOf\<close> is the new survey of the edge with
  subsurvey index \<open>i\<close>; \<open>patchSubProducts\<close> is the four-case update of the variable's
  subproducts (its divisors are larger than \<open>ZERO_EPSILON\<close> by the branch taken);
  \<open>updateLoop\<close> runs over \<^verbatim>\<open>clause->allNeighbourEdges\<close> with the index \<open>i\<close> and the
  running \<^verbatim>\<open>maxConvDiffInClause\<close>.
\<close>

definition newSurveyOf :: "int \<Rightarrow> real \<Rightarrow> real list \<Rightarrow> nat \<Rightarrow> anomaly + real" where
  "newSurveyOf zeros allSubSurveys subSurveys i =
     (if \<not> i < length subSurveys then Inl IndexOutOfRange
      else if zeros = 0 then
        (if subSurveys ! i = 0 then Inl DivisionByZero
         else Inr (allSubSurveys / subSurveys ! i))
      else if zeros = 1 \<and> subSurveys ! i < ZERO_EPSILON then Inr allSubSurveys
      else Inr 0)"

definition patchSubProducts :: "Variable \<Rightarrow> Edge \<Rightarrow> real \<Rightarrow> Variable" where
  "patchSubProducts var edge newSurvey =
     (if e_type edge then
        (if 1 - e_survey edge > ZERO_EPSILON then
           (if 1 - newSurvey > ZERO_EPSILON
            then var\<lparr>v_p := v_p var * ((1 - newSurvey) / (1 - e_survey edge))\<rparr>
            else var\<lparr>v_p := v_p var / (1 - e_survey edge), v_pzero := v_pzero var + 1\<rparr>)
         else
           (if 1 - newSurvey > ZERO_EPSILON
            then var\<lparr>v_p := v_p var * (1 - newSurvey), v_pzero := v_pzero var - 1\<rparr>
            else var))
      else
        (if 1 - e_survey edge > ZERO_EPSILON then
           (if 1 - newSurvey > ZERO_EPSILON
            then var\<lparr>v_m := v_m var * ((1 - newSurvey) / (1 - e_survey edge))\<rparr>
            else var\<lparr>v_m := v_m var / (1 - e_survey edge), v_mzero := v_mzero var + 1\<rparr>)
         else
           (if 1 - newSurvey > ZERO_EPSILON
            then var\<lparr>v_m := v_m var * (1 - newSurvey), v_mzero := v_mzero var - 1\<rparr>
            else var)))"

definition storeSurvey :: "FactorGraph \<Rightarrow> addr \<Rightarrow> real \<Rightarrow> FactorGraph" where
  "storeSurvey g e newSurvey =
     (let edge = edge_h g e; v = e_variable edge
      in g\<lparr>var_h := (var_h g)(v := patchSubProducts (var_h g v) edge newSurvey),
            edge_h := (edge_h g)(e := edge\<lparr>e_survey := newSurvey\<rparr>)\<rparr>)"

fun updateLoop ::
  "int \<Rightarrow> real \<Rightarrow> real list \<Rightarrow> addr list \<Rightarrow> nat \<Rightarrow> real \<Rightarrow> FactorGraph
     \<Rightarrow> anomaly + (real \<times> FactorGraph)"
where
  "updateLoop zeros allSubSurveys subSurveys [] i maxConvDiffInClause g =
     Inr (maxConvDiffInClause, g)"
| "updateLoop zeros allSubSurveys subSurveys (e # es) i maxConvDiffInClause g =
     (if e_enabled (edge_h g e) then
        (case newSurveyOf zeros allSubSurveys subSurveys i of
           Inl a \<Rightarrow> Inl a
         | Inr newSurvey \<Rightarrow>
             (let edgeConvDiff = \<bar>e_survey (edge_h g e) - newSurvey\<bar>
              in updateLoop zeros allSubSurveys subSurveys es (i + 1)
                   (if edgeConvDiff > maxConvDiffInClause then edgeConvDiff
                    else maxConvDiffInClause)
                   (storeSurvey g e newSurvey)))
      else updateLoop zeros allSubSurveys subSurveys es i maxConvDiffInClause g)"

definition updateSurveys :: "FactorGraph \<Rightarrow> addr \<Rightarrow> anomaly + (real \<times> FactorGraph)" where
  "updateSurveys g clause =
     (let es = c_allNeighbourEdges (clause_h g clause)
      in case subSurveysLoop g es (0, 1, []) of
           Inl a \<Rightarrow> Inl a
         | Inr (zeros, allSubSurveys, subSurveys) \<Rightarrow>
             updateLoop zeros allSubSurveys subSurveys es 0 0 g)"

section \<open>The survey-propagation driver\<close>

text \<open>
  The solver's own state: the members set by the constructor and the three tuning
  parameters \<^verbatim>\<open>spMaxIt\<close>, \<^verbatim>\<open>spEpsilon\<close> and \<^verbatim>\<open>paramagneticState\<close>, whose
  values come from the missing header and are therefore left open.  The state of the
  random generator is a natural number.  The operations of the C++ random library
  (seeding, \<^verbatim>\<open>getRandomReal01\<close>, \<^verbatim>\<open>std::shuffle\<close>, \<^verbatim>\<open>std::random_device\<close>) are
  not part of the repository: they are parameters of the model, collected in
  \<open>rng_lib\<close>.
\<close>

type_synonym rng = nat

record rng_lib =
  seed_generator :: "int \<Rightarrow> rng"
  getRandomReal01 :: "rng \<Rightarrow> real \<times> rng"
  shuffle :: "addr list \<Rightarrow> rng \<Rightarrow> addr list \<times> rng"

record Solver =
  s_initialSeed :: int
  s_randomGenerator :: rng
  s_N :: int
  s_alpha :: real
  s_wsMaxFlips :: int
  s_spMaxIt :: int
  s_spEpsilon :: real
  s_paramagneticState :: real

datatype AlgorithmResult = SAT | CONTRADICTION | CONVERGE | UNCONVERGE | WALKSAT

text \<open>
  \<^verbatim>\<open>Solver::Solver\<close>.  The condition of the constructor's \<^verbatim>\<open>if\<close> is the assignment
  \<^verbatim>\<open>seed = 0\<close>: it stores 0 in the parameter and its value is the stored 0.
  \<open>rd\<close> is the number \<^verbatim>\<open>rd()\<close> would deliver.  The header's values of the three
  tuning parameters are the arguments \<open>maxIt\<close>, \<open>eps\<close> and \<open>para\<close>.  The
  product \<^verbatim>\<open>100 * N\<close> is a product of 32-bit \<^verbatim>\<open>int\<close>s: beyond
  \<open>N = 21474836\<close> it overflows, which the model writes out as the wrap-around into the
  signed 32-bit range (the language leaves the overflow undefined).  No function of the
  file reads \<^verbatim>\<open>wsMaxFlips\<close>.
\<close>

definition Solver_new ::
  "rng_lib \<Rightarrow> int \<Rightarrow> real \<Rightarrow> real \<Rightarrow> int \<Rightarrow> real \<Rightarrow> int \<Rightarrow> int \<Rightarrow> Solver" where
  "Solver_new lib maxIt eps para n a seed rd =
     (let initialSeed0 = seed;
          seed1 = (0 :: int);
          initialSeed1 = (if seed1 \<noteq> 0 then rd else initialSeed0)
      in \<lparr>s_initialSeed = initialSeed1,
          s_randomGenerator = seed_generator lib initialSeed1,
          s_N = n, s_alpha = a, s_wsMaxFlips = signed_take_bit 31 (100 * n),
          s_spMaxIt = maxIt, s_spEpsilon = eps, s_paramagneticState = para\<rparr>)"

text \<open>
  Modelled from the spec: \<^verbatim>\<open>FactorGraph::GetEnabledClauses\<close> is not in the source
  file; the specification has the driver enumerate the currently enabled clauses.
\<close>

definition GetEnabledClauses :: "FactorGraph \<Rightarrow> addr list" where
  "GetEnabledClauses g = filter (\<lambda>c. c_enabled (clause_h g c)) (clauses g)"

text \<open>
  \<^verbatim>\<open>Solver::surveyPropagation\<close>.  \<open>sweepClauses\<close> is the loop over the shuffled
  clauses, \<open>spLoop\<close> the loop over the sweeps that are left; \<^verbatim>\<open>maxConvergeDiff\<close> is
  declared before the outer loop and handed from sweep to sweep.
\<close>

fun sweepClauses :: "addr list \<Rightarrow> real \<Rightarrow> FactorGraph \<Rightarrow> anomaly + (real \<times> FactorGraph)" where
  "sweepClauses [] maxConvergeDiff g = Inr (maxConvergeDiff, g)"
| "sweepClauses (c # cs) maxConvergeDiff g =
     (case updateSurveys g c of
        Inl a \<Rightarrow> Inl a
      | Inr (maxConvDiffInClause, g') \<Rightarrow>
          sweepClauses cs
            (if maxConvDiffInClause > maxConvergeDiff then maxConvDiffInClause
             else maxConvergeDiff) g')"

definition sweep :: "rng_lib \<Rightarrow> real \<times> Solver \<times> FactorGraph
    \<Rightarrow> anomaly + (real \<times> Solver \<times> FactorGraph)" where
  "sweep lib st =
     (case st of (maxConvergeDiff, s, g) \<Rightarrow>
        (case shuffle lib (GetEnabledClauses g) (s_randomGenerator s) of
           (enabledClauses, r) \<Rightarrow>
             (case sweepClauses enabledClauses maxConvergeDiff g of
                Inl a \<Rightarrow> Inl a
              | Inr (d, g') \<Rightarrow> Inr (d, s\<lparr>s_randomGenerator := r\<rparr>, g'))))"

fun spLoop :: "rng_lib \<Rightarrow> nat \<Rightarrow> real \<times> Solver \<times> FactorGraph
    \<Rightarrow> anomaly + (AlgorithmResult \<times> Solver \<times> FactorGraph)" where
  "spLoop lib 0 st = Inr (UNCONVERGE, snd st)"
| "spLoop lib (Suc n) st =
     (case sweep lib st of
        Inl a \<Rightarrow> Inl a
      | Inr (maxConvergeDiff, s, g) \<Rightarrow>
          if maxConvergeDiff \<le> s_spEpsilon s then
            (if maxConvergeDiff < ZERO_EPSILON then Inr (WALKSAT, s, g)
             else Inr (CONVERGE, s, g))
          else spLoop lib n (maxConvergeDiff, s, g))"

definition surveyPropagation ::
  "rng_lib \<Rightarrow> Solver \<Rightarrow> FactorGraph \<Rightarrow> anomaly + (AlgorithmResult \<times> Solver \<times> FactorGraph)" where
  "surveyPropagation lib s g = spLoop lib (nat (s_spMaxIt s)) (0, s, computeSubProducts g)"

section \<open>The simplifier\<close>

text \<open>
  Modelled from the spec: \<^verbatim>\<open>Variable::AssignValue\<close>, \<^verbatim>\<open>Clause::Dissable\<close>,
  \<^verbatim>\<open>Edge::Dissable\<close> and \<^verbatim>\<open>Clause::GetEnabledEdges\<close> are not in the source file.
  The specification has the first record the assignment, the next two clear the
  enabled flag of the clause (its edges may stay marked enabled) and of the edge, and
  the last enumerate the enabled edges of the clause.
\<close>

definition AssignValue :: "FactorGraph \<Rightarrow> addr \<Rightarrow> bool \<Rightarrow> FactorGraph" where
  "AssignValue g v b = g\<lparr>var_h := (var_h g)(v := (var_h g v)\<lparr>v_assigned := True, v_value := b\<rparr>)\<rparr>"

definition Clause_Dissable :: "FactorGraph \<Rightarrow> addr \<Rightarrow> FactorGraph" where
  "Clause_Dissable g c = g\<lparr>clause_h := (clause_h g)(c := (clause_h g c)\<lparr>c_enabled := False\<rparr>)\<rparr>"

definition Edge_Dissable :: "FactorGraph \<Rightarrow> addr \<Rightarrow> FactorGraph" where
  "Edge_Dissable g e = g\<lparr>edge_h := (edge_h g)(e := (edge_h g e)\<lparr>e_enabled := False\<rparr>)\<rparr>"

definition GetEnabledEdges :: "FactorGraph \<Rightarrow> addr \<Rightarrow> addr list" where
  "GetEnabledEdges g c = filter (\<lambda>e. e_enabled (edge_h g e)) (c_allNeighbourEdges (clause_h g c))"

text \<open>
  \<^verbatim>\<open>Solver::assignVariable\<close>, \<^verbatim>\<open>Solver::cleanGraph\<close> and
  \<^verbatim>\<open>Solver::unitPropagation\<close> call each other.  The boolean they return comes with the
  error message they write to \<^verbatim>\<open>cout\<close> when it is \<^verbatim>\<open>false\<close>: \<open>Done\<close> is
  \<^verbatim>\<open>true\<close>, \<open>Failed msg\<close> is \<^verbatim>\<open>false\<close> after printing \<open>msg\<close>.  The graph is
  returned in both cases, as the calls mutate it in place.  The first argument bounds the
  depth of the nested calls of \<^verbatim>\<open>assignVariable\<close>; \<open>None\<close> says that the bound was
  reached.  \<open>cleanEdges\<close> is the loop of \<^verbatim>\<open>cleanGraph\<close> over the edges that are left.
\<close>

datatype message = OppositeValue addr | EmptyClause addr

datatype verdict = Done | Failed message

fun assignVariable :: "nat \<Rightarrow> FactorGraph \<Rightarrow> addr \<Rightarrow> bool \<Rightarrow> (verdict \<times> FactorGraph) option"
  and cleanEdges :: "nat \<Rightarrow> FactorGraph \<Rightarrow> addr \<Rightarrow> addr list \<Rightarrow> (verdict \<times> FactorGraph) option"
  and unitPropagation :: "nat \<Rightarrow> FactorGraph \<Rightarrow> addr \<Rightarrow> (verdict \<times> FactorGraph) option"
where
  "assignVariable 0 g v b = None"
| "assignVariable (Suc n) g v b =
     (if v_assigned (var_h g v) \<and> v_value (var_h g v) \<noteq> b
      then Some (Failed (OppositeValue v), g)
      else cleanEdges n (AssignValue g v b) v (v_allNeighbourEdges (var_h g v)))"
| "cleanEdges n g v [] = Some (Done, g)"
| "cleanEdges n g v (e # es) =
     (if e_enabled (edge_h g e) then
        (if e_type (edge_h g e) = v_value (var_h g v)
         then cleanEdges n (Clause_Dissable g (e_clause (edge_h g e))) v es
         else
           (case unitPropagation n (Edge_Dissable g e) (e_clause (edge_h g e)) of
              None \<Rightarrow> None
            | Some (Failed msg, g') \<Rightarrow> Some (Failed msg, g')
            | Some (Done, g') \<Rightarrow> cleanEdges n g' v es))
      else cleanEdges n g v es)"
| "unitPropagation n g c =
     (case GetEnabledEdges g c of
        [] \<Rightarrow> Some (Failed (EmptyClause c), g)
      | [e] \<Rightarrow> assignVariable n g (e_variable (edge_h g e)) (e_type (edge_h g e))
      | _ \<Rightarrow> Some (Done, g))"

definition cleanGraph :: "nat \<Rightarrow> FactorGraph \<Rightarrow> addr \<Rightarrow> (verdict \<times> FactorGraph) option" where
  "cleanGraph n g v = cleanEdges n g v (v_allNeighbourEdges (var_h g v))"

section \<open>The decimation driver\<close>

text \<open>
  \<^verbatim>\<open>Solver::SID\<close>, lines 31 to 33: the loop over \<^verbatim>\<open>fg->edges\<close> that draws the
  initial surveys.
\<close>

fun initSurveys :: "rng_lib \<Rightarrow> addr list \<Rightarrow> rng \<Rightarrow> FactorGraph \<Rightarrow> rng \<times> FactorGraph" where
  "initSurveys lib [] r g = (r, g)"
| "initSurveys lib (e # es) r g =
     (case getRandomReal01 lib r of
        (x, r') \<Rightarrow>
          initSurveys lib es r' (g\<lparr>edge_h := (edge_h g)(e := (edge_h g e)\<lparr>e_survey := x\<rparr>)\<rparr>))"

text \<open>
  Lines 47 to 56: the declaration of \<^verbatim>\<open>unassignedVariables\<close> and the loop over
  \<^verbatim>\<open>fg->variables\<close> that evaluates the unassigned variables and sums their largest
  bias.  The list is part of the loop's state; no statement of the loop writes to it.
\<close>

fun evalLoop :: "addr list \<Rightarrow> addr list \<times> real \<times> FactorGraph
    \<Rightarrow> anomaly + (addr list \<times> real \<times> FactorGraph)" where
  "evalLoop [] st = Inr st"
| "evalLoop (v # vs) (unassignedVariables, sumMaxBias, g) =
     (if \<not> v_assigned (var_h g v) then
        (case evaluateVar (var_h g v) of
           Inl a \<Rightarrow> Inl a
         | Inr var \<Rightarrow>
             evalLoop vs
               (unassignedVariables,
                sumMaxBias + (if v_Hp var > v_Hm var then v_Hp var else v_Hm var),
                g\<lparr>var_h := (var_h g)(v := var)\<rparr>))
      else evalLoop vs (unassignedVariables, sumMaxBias, g))"

definition collectUnassigned :: "FactorGraph \<Rightarrow> anomaly + (addr list \<times> real \<times> FactorGraph)" where
  "collectUnassigned g = evalLoop (variables g) ([], 0, g)"

text \<open>
  Lines 61 to 64: the paramagnetic test.  \<open>Inr True\<close> is the branch that returns
  \<^verbatim>\<open>WALKSAT\<close>.  The divisor is \<^verbatim>\<open>unassignedVariables.size()\<close>.
\<close>

definition paramagneticTest :: "Solver \<Rightarrow> addr list \<Rightarrow> real \<Rightarrow> anomaly + bool" where
  "paramagneticTest s unassignedVariables sumMaxBias =
     (if length unassignedVariables = 0 then Inl DivisionByZero
      else Inr (sumMaxBias / real (length unassignedVariables) < s_paramagneticState s))"

text \<open>
  Lines 67 to 72.  The cast \<^verbatim>\<open>(int)\<close> of a \<^verbatim>\<open>double\<close> drops the fraction; the
  comparison of \<^verbatim>\<open>sort\<close> puts the larger \<^verbatim>\<open>abs(evalValue)\<close> first.
\<close>

definition truncate :: "real \<Rightarrow> int" where
  "truncate x = (if 0 \<le> x then \<lfloor>x\<rfloor> else \<lceil>x\<rceil>)"

definition assignFractionOf :: "addr list \<Rightarrow> real \<Rightarrow> int" where
  "assignFractionOf unassignedVariables fraction =
     (let assignFraction = truncate (real (length unassignedVariables) * fraction)
      in if assignFraction < 1 then 1 else assignFraction)"

definition sortByEvalValue :: "FactorGraph \<Rightarrow> addr list \<Rightarrow> addr list" where
  "sortByEvalValue g vs = sort_key (\<lambda>v. - \<bar>v_evalValue (var_h g v)\<bar>) vs"

text \<open>
  Lines 77 to 99: the loop that fixes variables.  The index \<open>i\<close> is an \<^verbatim>\<open>int\<close>; on
  an assigned variable the body runs \<^verbatim>\<open>i--\<close> and \<^verbatim>\<open>continue\<close>, and the loop header
  then runs \<^verbatim>\<open>i++\<close>.  \<open>Inr False\<close> is the branch that returns
  \<^verbatim>\<open>CONTRADICTION\<close>.  The first argument bounds the number of iterations and the
  depth of \<^verbatim>\<open>assignVariable\<close>; \<open>None\<close> says that the bound was reached.
\<close>

fun fixLoop :: "nat \<Rightarrow> addr list \<Rightarrow> int \<Rightarrow> int \<Rightarrow> FactorGraph
    \<Rightarrow> (anomaly + (bool \<times> FactorGraph)) option" where
  "fixLoop 0 unassignedVariables assignFraction i g = None"
| "fixLoop (Suc n) unassignedVariables assignFraction i g =
     (if i < assignFraction then
        (if \<not> (0 \<le> i \<and> nat i < length unassignedVariables) then Some (Inl IndexOutOfRange)
         else
           (let v = unassignedVariables ! nat i in
            if v_assigned (var_h g v)
            then fixLoop n unassignedVariables assignFraction ((i - 1) + 1) g
            else
              (case evaluateVar (var_h g v) of
                 Inl a \<Rightarrow> Some (Inl a)
               | Inr var \<Rightarrow>
                   (let newValue = (v_Hp var > v_Hm var) in
                    case assignVariable n (g\<lparr>var_h := (var_h g)(v := var)\<rparr>) v newValue of
                      None \<Rightarrow> None
                    | Some (Failed msg, g') \<Rightarrow> Some (Inr (False, g'))
                    | Some (Done, g') \<Rightarrow>
                        fixLoop n unassignedVariables assignFraction (i + 1) g'))))
      else Some (Inr (True, g)))"

text \<open>
  Modelled from the spec: \<^verbatim>\<open>FactorGraph::IsSAT\<close> is not in the source file; the
  specification has the graph satisfied when all clauses are disabled.
\<close>

definition IsSAT :: "FactorGraph \<Rightarrow> bool" where
  "IsSAT g = list_all (\<lambda>c. \<not> c_enabled (clause_h g c)) (clauses g)"

text \<open>
  Lines 36 to 110: the \<^verbatim>\<open>while (true)\<close> loop.  \<open>decimate\<close> is one pass of its body
  after survey propagation has returned \<^verbatim>\<open>CONVERGE\<close>: \<open>Inr (Some res)\<close> returns
  \<open>res\<close> from \<^verbatim>\<open>SID\<close>, \<open>Inr None\<close> goes round the loop again.
\<close>

definition decimate :: "nat \<Rightarrow> Solver \<Rightarrow> real \<Rightarrow> FactorGraph
    \<Rightarrow> (anomaly + (AlgorithmResult option \<times> FactorGraph)) option" where
  "decimate n s fraction g =
     (case collectUnassigned g of
        Inl a \<Rightarrow> Some (Inl a)
      | Inr (unassignedVariables, sumMaxBias, g1) \<Rightarrow>
          (case paramagneticTest s unassignedVariables sumMaxBias of
             Inl a \<Rightarrow> Some (Inl a)
           | Inr True \<Rightarrow> Some (Inr (Some WALKSAT, g1))
           | Inr False \<Rightarrow>
               (let assignFraction = assignFractionOf unassignedVariables fraction;
                    sorted = sortByEvalValue g1 unassignedVariables
                in case fixLoop n sorted assignFraction 0 g1 of
                     None \<Rightarrow> None
                   | Some (Inl a) \<Rightarrow> Some (Inl a)
                   | Some (Inr (False, g2)) \<Rightarrow> Some (Inr (Some CONTRADICTION, g2))
                   | Some (Inr (True, g2)) \<Rightarrow>
                       if IsSAT g2 then Some (Inr (Some SAT, g2))
                       else Some (Inr (None, g2)))))"

fun SIDLoop :: "nat \<Rightarrow> rng_lib \<Rightarrow> Solver \<Rightarrow> real \<Rightarrow> FactorGraph
    \<Rightarrow> (anomaly + (AlgorithmResult \<times> Solver \<times> FactorGraph)) option" where
  "SIDLoop 0 lib s fraction g = None"
| "SIDLoop (Suc n) lib s fraction g =
     (case surveyPropagation lib s g of
        Inl a \<Rightarrow> Some (Inl a)
      | Inr (spResult, s1, g1) \<Rightarrow>
          if spResult \<noteq> CONVERGE then Some (Inr (spResult, s1, g1))
          else
            (case decimate n s1 fraction g1 of
               None \<Rightarrow> None
             | Some (Inl a) \<Rightarrow> Some (Inl a)
             | Some (Inr (Some res, g2)) \<Rightarrow> Some (Inr (res, s1, g2))
             | Some (Inr (None, g2)) \<Rightarrow> SIDLoop n lib s1 fraction g2))"

definition SID :: "nat \<Rightarrow> rng_lib \<Rightarrow> Solver \<Rightarrow> FactorGraph \<Rightarrow> real
    \<Rightarrow> (anomaly + (AlgorithmResult \<times> Solver \<times> FactorGraph)) option" where
  "SID n lib s graph fraction =
     (case initSurveys lib (edges graph) (s_randomGenerator s) graph of
        (r, g) \<Rightarrow> SIDLoop n lib (s\<lparr>s_randomGenerator := r\<rparr>) fraction g)"

section \<open>Notions used by the properties\<close>

text \<open>
  A factor graph is well formed when its three vectors and the edge lists of its
  variables and clauses describe one bipartite graph: the edges listed at a variable are,
  each once, the edges that point to it, the edges listed at a clause point to it, and
  every edge of \<^verbatim>\<open>fg->edges\<close> is listed at its variable and at its clause.
\<close>

definition wellFormed :: "FactorGraph \<Rightarrow> bool" where
  "wellFormed g \<longleftrightarrow>
     (\<forall>v\<in>set (variables g).
        distinct (v_allNeighbourEdges (var_h g v)) \<and>
        (\<forall>e\<in>set (v_allNeighbourEdges (var_h g v)).
           e \<in> set (edges g) \<and> e_variable (edge_h g e) = v)) \<and>
     (\<forall>c\<in>set (clauses g).
        \<forall>e\<in>set (c_allNeighbourEdges (clause_h g c)).
           e \<in> set (edges g) \<and> e_clause (edge_h g e) = c) \<and>
     (\<forall>e\<in>set (edges g).
        e_variable (edge_h g e) \<in> set (variables g) \<and>
        e_clause (edge_h g e) \<in> set (clauses g) \<and>
        e \<in> set (v_allNeighbourEdges (var_h g (e_variable (edge_h g e)))) \<and>
        e \<in> set (c_allNeighbourEdges (clause_h g (e_clause (edge_h g e)))))"

text \<open>
  Invariant I1 in the words of the specification: for every unassigned variable, \<open>p\<close> is
  the product of \<open>1 - survey\<close> over its enabled positive edges with
  \<open>1 - survey > ZERO_EPSILON\<close>, \<open>pzero\<close> counts its enabled positive edges with
  \<open>1 - survey \<le> ZERO_EPSILON\<close>, and \<open>m\<close>, \<open>mzero\<close> are the same over the negative
  edges.
\<close>

definition liveEdges :: "(addr \<Rightarrow> Edge) \<Rightarrow> bool \<Rightarrow> addr list \<Rightarrow> addr list" where
  "liveEdges eh t es =
     filter (\<lambda>e. e_enabled (eh e) \<and> e_type (eh e) = t \<and> 1 - e_survey (eh e) > ZERO_EPSILON) es"

definition saturatedEdges :: "(addr \<Rightarrow> Edge) \<Rightarrow> bool \<Rightarrow> addr list \<Rightarrow> addr list" where
  "saturatedEdges eh t es =
     filter (\<lambda>e. e_enabled (eh e) \<and> e_type (eh e) = t \<and> 1 - e_survey (eh e) \<le> ZERO_EPSILON) es"

definition subProductOf :: "(addr \<Rightarrow> Edge) \<Rightarrow> bool \<Rightarrow> addr list \<Rightarrow> real" where
  "subProductOf eh t es = prod_list (map (\<lambda>e. 1 - e_survey (eh e)) (liveEdges eh t es))"

definition I1_var :: "(addr \<Rightarrow> Edge) \<Rightarrow> Variable \<Rightarrow> bool" where
  "I1_var eh var \<longleftrightarrow>
     v_p var = subProductOf eh True (v_allNeighbourEdges var) \<and>
     v_pzero var = int (length (saturatedEdges eh True (v_allNeighbourEdges var))) \<and>
     v_m var = subProductOf eh False (v_allNeighbourEdges var) \<and>
     v_mzero var = int (length (saturatedEdges eh False (v_allNeighbourEdges var)))"

definition I1 :: "FactorGraph \<Rightarrow> bool" where
  "I1 g \<longleftrightarrow>
     (\<forall>v\<in>set (variables g). \<not> v_assigned (var_h g v) \<longrightarrow> I1_var (edge_h g) (var_h g v))"

text \<open>
  What one edge contributes to the subproduct and to the saturation count of polarity
  \<open>t\<close>: the factor \<open>1 - survey\<close> (or 1), and 1 (or 0).
\<close>

definition edgeFactor :: "bool \<Rightarrow> Edge \<Rightarrow> real" where
  "edgeFactor t edge =
     (if e_enabled edge \<and> e_type edge = t \<and> 1 - e_survey edge > ZERO_EPSILON
      then 1 - e_survey edge else 1)"

definition edgeSaturated :: "bool \<Rightarrow> Edge \<Rightarrow> int" where
  "edgeSaturated t edge =
     (if e_enabled edge \<and> e_type edge = t \<and> 1 - e_survey edge \<le> ZERO_EPSILON then 1 else 0)"

text \<open>
  The number of enabled edges in \<^verbatim>\<open>fg->edges\<close>, and the ways in which the simplifier
  changes a graph: it keeps the vectors, the edge lists, the pointers and the polarities,
  it only clears enabled flags, and an assigned variable keeps its value.
\<close>

definition enabledCount :: "FactorGraph \<Rightarrow> nat" where
  "enabledCount g = length (filter (\<lambda>e. e_enabled (edge_h g e)) (edges g))"

definition evolves :: "FactorGraph \<Rightarrow> FactorGraph \<Rightarrow> bool" where
  "evolves g g' \<longleftrightarrow>
     variables g' = variables g \<and> clauses g' = clauses g \<and> edges g' = edges g \<and>
     (\<forall>v. v_allNeighbourEdges (var_h g' v) = v_allNeighbourEdges (var_h g v) \<and>
          (v_assigned (var_h g v) \<longrightarrow>
             v_assigned (var_h g' v) \<and> v_value (var_h g' v) = v_value (var_h g v))) \<and>
     (\<forall>c. c_allNeighbourEdges (clause_h g' c) = c_allNeighbourEdges (clause_h g c) \<and>
          (c_enabled (clause_h g' c) \<longrightarrow> c_enabled (clause_h g c))) \<and>
     (\<forall>e. e_variable (edge_h g' e) = e_variable (edge_h g e) \<and>
          e_clause (edge_h g' e) = e_clause (edge_h g e) \<and>
          e_type (edge_h g' e) = e_type (edge_h g e) \<and>
          (e_enabled (edge_h g' e) \<longrightarrow> e_enabled (edge_h g e)))"

text \<open>
  What the simplifier has done to a clause between two graphs \<open>g\<close> and \<open>g'\<close>.  The
  clause is shrunk when one of its edges was enabled in \<open>g\<close> and is not in \<open>g'\<close>.
  It is contradicted when it has no enabled edge, or exactly one, whose variable is
  assigned to the opposite of the edge's polarity: the two states in which
  \<^verbatim>\<open>unitPropagation\<close> on the clause returns \<^verbatim>\<open>false\<close>, by itself or through its
  call of \<^verbatim>\<open>assignVariable\<close>.  It is propagated when it has two or more enabled edges,
  or exactly one, whose variable is assigned to the edge's polarity: the states in which
  unit propagation has nothing left to do on the clause.
\<close>

definition shrunk :: "FactorGraph \<Rightarrow> FactorGraph \<Rightarrow> addr \<Rightarrow> bool" where
  "shrunk g g' c \<longleftrightarrow>
     (\<exists>e\<in>set (c_allNeighbourEdges (clause_h g c)).
        e_enabled (edge_h g e) \<and> \<not> e_enabled (edge_h g' e))"

definition contradicted :: "FactorGraph \<Rightarrow> addr \<Rightarrow> bool" where
  "contradicted g c =
     (case GetEnabledEdges g c of
        [] \<Rightarrow> True
      | [e] \<Rightarrow> v_assigned (var_h g (e_variable (edge_h g e))) \<and>
               v_value (var_h g (e_variable (edge_h g e))) \<noteq> e_type (edge_h g e)
      | _ \<Rightarrow> False)"

definition propagated :: "FactorGraph \<Rightarrow> addr \<Rightarrow> bool" where
  "propagated g c =
     (case GetEnabledEdges g c of
        [] \<Rightarrow> False
      | [e] \<Rightarrow> v_assigned (var_h g (e_variable (edge_h g e))) \<and>
               v_value (var_h g (e_variable (edge_h g e))) = e_type (edge_h g e)
      | _ \<Rightarrow> True)"

text \<open>
  The state after \<open>k\<close> sweeps of the driver, when no sweep leaves the loop: the first
  component is the value of \<^verbatim>\<open>maxConvergeDiff\<close> that the driver compares with
  \<^verbatim>\<open>spEpsilon\<close> after sweep \<open>k\<close>.
\<close>

fun sweeps :: "rng_lib \<Rightarrow> nat \<Rightarrow> real \<times> Solver \<times> FactorGraph
    \<Rightarrow> anomaly + (real \<times> Solver \<times> FactorGraph)" where
  "sweeps lib 0 st = Inr st"
| "sweeps lib (Suc k) st = (case sweep lib st of Inl a \<Rightarrow> Inl a | Inr st' \<Rightarrow> sweeps lib k st')"

text \<open>Sweep \<open>j\<close> ends with a compared value above the threshold \<open>eps\<close>.\<close>

definition thresholdMissed :: "rng_lib \<Rightarrow> real \<Rightarrow> real \<times> Solver \<times> FactorGraph \<Rightarrow> nat \<Rightarrow> bool" where
  "thresholdMissed lib eps st j =
     (case sweeps lib j st of Inl a \<Rightarrow> False | Inr (d, s, g) \<Rightarrow> \<not> d \<le> eps)"

text \<open>The first \<open>k\<close> numbers that \<^verbatim>\<open>getRandomReal01\<close> delivers from the state \<open>r\<close>.\<close>

fun draws :: "rng_lib \<Rightarrow> rng \<Rightarrow> nat \<Rightarrow> real list" where
  "draws lib r 0 = []"
| "draws lib r (Suc k) = (case getRandomReal01 lib r of (x, r') \<Rightarrow> x # draws lib r' k)"

fun afterDraws :: "rng_lib \<Rightarrow> rng \<Rightarrow> nat \<Rightarrow> rng" where
  "afterDraws lib r 0 = r"
| "afterDraws lib r (Suc k) = afterDraws lib (snd (getRandomReal01 lib r)) k"

text \<open>The graph with the survey of every edge replaced by \<open>f\<close> of its address.\<close>

definition withSurveys :: "(addr \<Rightarrow> real) \<Rightarrow> FactorGraph \<Rightarrow> FactorGraph" where
  "withSurveys f g = g\<lparr>edge_h := (\<lambda>e. (edge_h g e)\<lparr>e_survey := f e\<rparr>)\<rparr>"

text \<open>Observers of a result: the value returned, the graph left behind, its surveys.\<close>

definition resultOf :: "anomaly + ('a \<times> 'b) \<Rightarrow> (anomaly + 'a)" where
  "resultOf r = (case r of Inl a \<Rightarrow> Inl a | Inr (x, _) \<Rightarrow> Inr x)"

definition outcomeOf :: "(anomaly + ('a \<times> 'b)) option \<Rightarrow> (anomaly + 'a) option" where
  "outcomeOf r = map_option resultOf r"

definition graphOf :: "anomaly + ('a \<times> 'b \<times> FactorGraph) \<Rightarrow> FactorGraph" where
  "graphOf r = snd (snd (projr r))"

definition surveysOf :: "FactorGraph \<Rightarrow> real list" where
  "surveysOf g = map (\<lambda>e. e_survey (edge_h g e)) (edges g)"

definition cacheOf :: "FactorGraph \<Rightarrow> (real \<times> int \<times> real \<times> int) list" where
  "cacheOf g =
     map (\<lambda>v. (v_p (var_h g v), v_pzero (var_h g v), v_m (var_h g v), v_mzero (var_h g v)))
       (variables g)"

definition unassignedIn :: "FactorGraph \<Rightarrow> addr list" where
  "unassignedIn g = filter (\<lambda>v. \<not> v_assigned (var_h g v)) (variables g)"

section \<open>Example graphs\<close>

definition var0 :: Variable where
  "var0 = \<lparr>v_assigned = False, v_value = False, v_p = 1, v_m = 1, v_pzero = 0, v_mzero = 0,
           v_Hp = 0, v_Hm = 0, v_Hz = 0, v_evalValue = 0, v_allNeighbourEdges = []\<rparr>"

definition mkVar :: "addr list \<Rightarrow> Variable" where
  "mkVar es = var0\<lparr>v_allNeighbourEdges := es\<rparr>"

definition mkEdge :: "addr \<Rightarrow> addr \<Rightarrow> bool \<Rightarrow> real \<Rightarrow> Edge" where
  "mkEdge v c t s = \<lparr>e_variable = v, e_clause = c, e_type = t, e_enabled = True, e_survey = s\<rparr>"

definition mkClause :: "addr list \<Rightarrow> Clause" where
  "mkClause es = \<lparr>c_enabled = True, c_allNeighbourEdges = es\<rparr>"

text \<open>
  A library whose generator always delivers 1/200 and whose shuffle keeps the order, and
  a solver with three sweeps at most and both thresholds at 1/100.
\<close>

definition plainLib :: rng_lib where
  "plainLib = \<lparr>seed_generator = (\<lambda>i. nat \<bar>i\<bar>), getRandomReal01 = (\<lambda>r. (1 / 200, r)),
               shuffle = (\<lambda>xs r. (xs, r))\<rparr>"

definition exSolver :: Solver where
  "exSolver = Solver_new plainLib 3 (1 / 100) (1 / 100) 2 1 42 7"

text \<open>
  \<open>gCycle\<close>: the clauses \<open>(x0 \<or> \<not>x1)\<close> and \<open>(\<not>x0 \<or> x1)\<close> with the surveys
  0, 1/2, 1/2, 0 on the edges 0 to 3.
\<close>

definition gCycle :: FactorGraph where
  "gCycle = \<lparr>variables = [0, 1], clauses = [0, 1], edges = [0, 1, 2, 3],
     var_h = (\<lambda>_. var0)(0 := mkVar [0, 2], 1 := mkVar [1, 3]),
     clause_h = (\<lambda>_. mkClause [])(0 := mkClause [0, 1], 1 := mkClause [2, 3]),
     edge_h = (\<lambda>_. mkEdge 0 0 True 0)
       (0 := mkEdge 0 0 True 0, 1 := mkEdge 1 0 False (1 / 2),
        2 := mkEdge 0 1 False (1 / 2), 3 := mkEdge 1 1 True 0)\<rparr>"

text \<open>
  \<open>gPair\<close>: the unit clauses \<open>(x0)\<close> and \<open>(\<not>x0)\<close>, both surveys 199/200;
  \<open>gPairCache\<close>: the same graph with its subproducts recomputed;
  \<open>gPairUpdated\<close>: that graph after the survey update of clause 0;
  \<open>gPairSat\<close>: \<open>gPair\<close> with both surveys 1.
\<close>

definition gPair :: FactorGraph where
  "gPair = \<lparr>variables = [0], clauses = [0, 1], edges = [0, 1],
     var_h = (\<lambda>_. var0)(0 := mkVar [0, 1]),
     clause_h = (\<lambda>_. mkClause [])(0 := mkClause [0], 1 := mkClause [1]),
     edge_h = (\<lambda>_. mkEdge 0 0 True 0)
       (0 := mkEdge 0 0 True (199 / 200), 1 := mkEdge 0 1 False (199 / 200))\<rparr>"

definition gPairCache :: FactorGraph where
  "gPairCache = computeSubProducts gPair"

definition gPairUpdated :: FactorGraph where
  "gPairUpdated = snd (projr (updateSurveys gPairCache 0))"

definition gPairSat :: FactorGraph where
  "gPairSat = withSurveys (\<lambda>e. 1) gPair"

text \<open>
  \<open>gNeg\<close>: the clauses \<open>(\<not>x0)\<close> and \<open>(\<not>x0 \<or> x1)\<close>, every survey 1/2.
\<close>

definition gNeg :: FactorGraph where
  "gNeg = \<lparr>variables = [0, 1], clauses = [0, 1], edges = [0, 1, 2],
     var_h = (\<lambda>_. var0)(0 := mkVar [0, 1], 1 := mkVar [2]),
     clause_h = (\<lambda>_. mkClause [])(0 := mkClause [0], 1 := mkClause [1, 2]),
     edge_h = (\<lambda>_. mkEdge 0 0 True 0)
       (0 := mkEdge 0 0 False (1 / 2), 1 := mkEdge 0 1 False (1 / 2),
        2 := mkEdge 1 1 True (1 / 2))\<rparr>"

text \<open>
  \<open>gOne\<close>: the single clause \<open>(x0 \<or> x1)\<close>, surveys 0; \<open>gOneInit\<close>: the same
  graph after the initial draws of \<^verbatim>\<open>SID\<close>, both surveys 1/200; \<open>gOneConv\<close>: the
  graph as survey propagation then leaves it.
\<close>

definition gOne :: FactorGraph where
  "gOne = \<lparr>variables = [0, 1], clauses = [0], edges = [0, 1],
     var_h = (\<lambda>_. var0)(0 := mkVar [0], 1 := mkVar [1]),
     clause_h = (\<lambda>_. mkClause [])(0 := mkClause [0, 1]),
     edge_h = (\<lambda>_. mkEdge 0 0 True 0)(0 := mkEdge 0 0 True 0, 1 := mkEdge 1 0 True 0)\<rparr>"

definition gOneInit :: FactorGraph where
  "gOneInit = snd (initSurveys plainLib (edges gOne) (s_randomGenerator exSolver) gOne)"

definition gOneConv :: FactorGraph where
  "gOneConv = graphOf (surveyPropagation plainLib exSolver gOneInit)"

text \<open>
  \<open>gOneHalf\<close>: the clause \<open>(x0 \<or> x1)\<close> with both surveys 1/2; \<open>gOneHalfSwept\<close>:
  that graph after the first sweep of survey propagation.
\<close>

definition gOneHalf :: FactorGraph where
  "gOneHalf = withSurveys (\<lambda>e. 1 / 2) gOne"

definition gOneHalfSwept :: FactorGraph where
  "gOneHalfSwept = graphOf (sweeps plainLib 1 (0, exSolver, computeSubProducts gOneHalf))"

text \<open>A variable with both subproducts 1/2 and no saturated edge, and one with 1/2 and 1/4.\<close>

definition exVarHalf :: Variable where
  "exVarHalf = var0\<lparr>v_p := 1 / 2, v_m := 1 / 2\<rparr>"

definition exVarQuarter :: Variable where
  "exVarQuarter = var0\<lparr>v_p := 1 / 2, v_m := 1 / 4\<rparr>"

text \<open>
  \<open>gChain\<close>: the clauses \<open>(\<not>x0 \<or> x1)\<close>, \<open>(\<not>x1 \<or> x2)\<close> and \<open>(x0 \<or> x2 \<or> x3)\<close>;
  \<open>gLate\<close>: the clauses \<open>(\<not>x0 \<or> x1)\<close>, \<open>(\<not>x1 \<or> x2)\<close> and
  \<open>(\<not>x1 \<or> \<not>x2)\<close>.
\<close>

definition gChain :: FactorGraph where
  "gChain = \<lparr>variables = [0, 1, 2, 3], clauses = [0, 1, 2], edges = [0, 1, 2, 3, 4, 5, 6],
     var_h = (\<lambda>_. var0)(0 := mkVar [0, 4], 1 := mkVar [1, 2], 2 := mkVar [3, 5], 3 := mkVar [6]),
     clause_h = (\<lambda>_. mkClause [])
       (0 := mkClause [0, 1], 1 := mkClause [2, 3], 2 := mkClause [4, 5, 6]),
     edge_h = (\<lambda>_. mkEdge 0 0 True 0)
       (0 := mkEdge 0 0 False 0, 1 := mkEdge 1 0 True 0, 2 := mkEdge 1 1 False 0,
        3 := mkEdge 2 1 True 0, 4 := mkEdge 0 2 True 0, 5 := mkEdge 2 2 True 0,
        6 := mkEdge 3 2 True 0)\<rparr>"

definition gLate :: FactorGraph where
  "gLate = \<lparr>variables = [0, 1, 2], clauses = [0, 1, 2], edges = [0, 1, 2, 3, 4, 5],
     var_h = (\<lambda>_. var0)(0 := mkVar [0], 1 := mkVar [1, 2, 4], 2 := mkVar [3, 5]),
     clause_h = (\<lambda>_. mkClause [])
       (0 := mkClause [0, 1], 1 := mkClause [2, 3], 2 := mkClause [4, 5]),
     edge_h = (\<lambda>_. mkEdge 0 0 True 0)
       (0 := mkEdge 0 0 False 0, 1 := mkEdge 1 0 True 0, 2 := mkEdge 1 1 False 0,
        3 := mkEdge 2 1 True 0, 4 := mkEdge 1 2 False 0, 5 := mkEdge 2 2 False 0)\<rparr>"

text \<open>
  \<open>gChainDone\<close>: \<open>gChain\<close> after \<open>x0\<close> has been assigned \<open>True\<close>;
  \<open>gLateFailed\<close>: \<open>gLate\<close> after the failed attempt to assign \<open>x0\<close> to \<open>True\<close>.
\<close>

definition gChainDone :: FactorGraph where
  "gChainDone = snd (the (assignVariable 8 gChain 0 True))"

definition gLateFailed :: FactorGraph where
  "gLateFailed = snd (the (assignVariable 7 gLate 0 True))"

text \<open>
  \<open>gChainAgain\<close>: \<open>gChainDone\<close> after one more unit propagation on its clause
  \<open>(\<not>x0 \<or> x1)\<close>; \<open>gUnit\<close>: the single clause \<open>(\<not>x0)\<close>; \<open>gUnitFailed\<close>: that graph
  after the failed attempt to assign \<open>x0\<close> to \<open>True\<close>.
\<close>

definition gChainAgain :: FactorGraph where
  "gChainAgain = snd (the (unitPropagation 2 gChainDone 0))"

definition gUnit :: FactorGraph where
  "gUnit = \<lparr>variables = [0], clauses = [0], edges = [0],
     var_h = (\<lambda>_. var0)(0 := mkVar [0]),
     clause_h = (\<lambda>_. mkClause [])(0 := mkClause [0]),
     edge_h = (\<lambda>_. mkEdge 0 0 True 0)(0 := mkEdge 0 0 False 0)\<rparr>"

definition gUnitFailed :: FactorGraph where
  "gUnitFailed = snd (the (assignVariable 2 gUnit 0 True))"

section \<open>Observers\<close>

lemma resultOf_Inl: "resultOf r = Inl a \<longleftrightarrow> r = Inl a"
  by (cases r) (auto simp add: resultOf_def)

lemma resultOf_Inr: "resultOf r = Inr x \<longleftrightarrow> (\<exists>y. r = Inr (x, y))"
  by (cases r) (auto simp add: resultOf_def)

lemma resultOf_Inr_pair: "resultOf r = Inr x \<Longrightarrow> r = Inr (x, snd (projr r))"
  by (cases r) (auto simp add: resultOf_def)

section \<open>Bias evaluation: the normalizing sum\<close>

lemma biasSum_eq: "biasSum var = biasP var + biasM var * (1 - biasP var)"
  unfolding biasSum_def Let_def by (simp only: right_diff_distrib mult_1_right mult.commute)

lemma biasSum_pos:
  assumes "0 < v_p var" "v_p var \<le> 1" "0 < v_m var" "v_m var \<le> 1"
      and "v_pzero var = 0 \<or> v_mzero var = 0"
  shows "0 < biasSum var"
proof (cases "v_pzero var = 0")
  case True
  then have P: "biasP var = v_p var"
    by (simp add: biasP_def)
  have "0 \<le> biasM var"
    using assms(3) by (simp add: biasM_def)
  moreover have "0 \<le> 1 - v_p var"
    using assms(2) by simp
  ultimately have "0 \<le> biasM var * (1 - v_p var)"
    by (rule mult_nonneg_nonneg)
  then show ?thesis
    unfolding biasSum_eq P using assms(1) by linarith
next
  case False
  then have "biasP var = 0" "biasM var = v_m var"
    using assms(5) by (simp_all add: biasP_def biasM_def)
  then show ?thesis
    unfolding biasSum_eq using assms(3) by simp
qed

lemma evaluateVar_Inr:
  assumes "biasSum var \<noteq> 0"
  shows "evaluateVar var =
      Inr (var\<lparr>v_Hz := biasP var * biasM var / biasSum var,
               v_Hp := (biasM var - biasP var * biasM var) / biasSum var,
               v_Hm := (biasP var - biasP var * biasM var) / biasSum var,
               v_evalValue := \<bar>(biasM var - biasP var * biasM var) / biasSum var
                                - (biasP var - biasP var * biasM var) / biasSum var\<bar>\<rparr>)"
  using assms unfolding evaluateVar_def biasSum_def Let_def by (simp only: if_False)

lemma normalized_sum:
  fixes P M S :: real
  assumes "S = (P - P * M) + P * M + (M - P * M)" "S \<noteq> 0"
  shows "(M - P * M) / S + (P - P * M) / S + P * M / S = 1"
proof -
  have "(M - P * M) / S + (P - P * M) / S + P * M / S = ((M - P * M) + (P - P * M) + P * M) / S"
    by (simp only: add_divide_distrib)
  also have "(M - P * M) + (P - P * M) + P * M = S"
    unfolding assms(1) by simp
  finally show ?thesis
    using assms(2) by simp
qed

text \<open>
  Claim C9, as stated, fails.  In \<open>gPairSat\<close> the variable \<open>x0\<close> is unassigned and has
  enabled edges, the recomputed cache has \<open>pzero = 1\<close> and \<open>mzero = 1\<close>, so both
  \<open>P\<close> and \<open>M\<close> are 0, the sum \<open>S\<close> is 0 and the normalization divides by zero.
\<close>

theorem evaluateVar_counterexample:
  "unassignedIn (computeSubProducts gPairSat) = [0] \<and>
   GetEnabledEdges (computeSubProducts gPairSat) 0 = [0] \<and>
   cacheOf (computeSubProducts gPairSat) = [(1, 1, 1, 1)] \<and>
   biasSum (var_h (computeSubProducts gPairSat) 0) = 0 \<and>
   evaluateVar (var_h (computeSubProducts gPairSat) 0) = Inl DivisionByZero"
  by code_simp

text \<open>
  Claim C9, amended: for every variable whose subproducts \<open>p\<close> and \<open>m\<close> lie in
  \<open>(0, 1]\<close> and whose saturation counts \<open>pzero\<close> and \<open>mzero\<close> are not both
  non-zero, bias evaluation computes \<open>Hz = P * M\<close>, \<open>Hp = M - Hz\<close>, \<open>Hm = P - Hz\<close>
  with \<open>P = (pzero \<noteq> 0 ? 0 : p)\<close> and \<open>M = (mzero \<noteq> 0 ? 0 : m)\<close>, the sum
  \<open>S = Hp + Hm + Hz\<close> is strictly positive, the three stored biases are the raw ones
  divided by \<open>S\<close> and sum to 1, and \<open>evalValue = |Hp - Hm|\<close>.
\<close>

theorem evaluateVar_normalized:
  assumes "0 < v_p var" "v_p var \<le> 1" "0 < v_m var" "v_m var \<le> 1"
      and "v_pzero var = 0 \<or> v_mzero var = 0"
  shows "0 < biasSum var \<and>
         (\<exists>var'. evaluateVar var = Inr var' \<and>
            v_Hz var' = biasP var * biasM var / biasSum var \<and>
            v_Hp var' = (biasM var - biasP var * biasM var) / biasSum var \<and>
            v_Hm var' = (biasP var - biasP var * biasM var) / biasSum var \<and>
            v_Hp var' + v_Hm var' + v_Hz var' = 1 \<and>
            v_evalValue var' = \<bar>v_Hp var' - v_Hm var'\<bar>)"
proof -
  have pos: "0 < biasSum var"
    using assms by (rule biasSum_pos)
  then have nz: "biasSum var \<noteq> 0"
    by simp
  have S: "biasSum var =
      (biasP var - biasP var * biasM var) + biasP var * biasM var
        + (biasM var - biasP var * biasM var)"
    unfolding biasSum_def Let_def by (rule refl)
  note one = normalized_sum [OF S nz]
  show ?thesis
    unfolding evaluateVar_Inr [OF nz] using pos one by simp
qed

text \<open>Witness for C9 amended: the variable with \<open>p = 1/2\<close>, \<open>m = 1/4\<close> and no saturation.\<close>

theorem evaluateVar_normalized_witness:
  "(0 < v_p exVarQuarter \<and> v_p exVarQuarter \<le> 1 \<and> 0 < v_m exVarQuarter \<and>
    v_m exVarQuarter \<le> 1 \<and> (v_pzero exVarQuarter = 0 \<or> v_mzero exVarQuarter = 0)) \<and>
   0 < biasSum exVarQuarter \<and>
   (\<exists>var'. evaluateVar exVarQuarter = Inr var' \<and>
      v_Hz var' = biasP exVarQuarter * biasM exVarQuarter / biasSum exVarQuarter \<and>
      v_Hp var' =
        (biasM exVarQuarter - biasP exVarQuarter * biasM exVarQuarter) / biasSum exVarQuarter \<and>
      v_Hm var' =
        (biasP exVarQuarter - biasP exVarQuarter * biasM exVarQuarter) / biasSum exVarQuarter \<and>
      v_Hp var' + v_Hm var' + v_Hz var' = 1 \<and>
      v_evalValue var' = \<bar>v_Hp var' - v_Hm var'\<bar>)"
proof -
  have h: "0 < v_p exVarQuarter" "v_p exVarQuarter \<le> 1" "0 < v_m exVarQuarter"
    "v_m exVarQuarter \<le> 1" "v_pzero exVarQuarter = 0 \<or> v_mzero exVarQuarter = 0"
    by (simp_all add: exVarQuarter_def var0_def)
  note c = evaluateVar_normalized [OF h]
  show ?thesis
    by (intro conjI h(1-4) h(5) conjunct1 [OF c] conjunct2 [OF c])
qed

section \<open>The weights of a negative edge\<close>

text \<open>
  Claim C2 against the code.  The variable has \<open>p = 1/2\<close> and \<open>m = 1/2\<close> and no
  saturation; the edge is negative with survey 1/2.  The negative branch computes
  \<open>m = (1/2) / (1 - 1/2) = 1\<close>, \<open>wn = m * (1 - p) = 1/2\<close> and \<open>wt = m = 1\<close>, so the
  subsurvey is 1/3.  The claim has \<open>wt = p = 1/2\<close> and the subsurvey 1/2.
\<close>

theorem edgeWeights_negative_example:
  "edgeWeights exVarHalf (mkEdge 0 0 False (1 / 2)) = Inr (1 / 2, 1) \<and>
   subSurveyOf exVarHalf (mkEdge 0 0 False (1 / 2)) = Inr (1 / 3)"
  by code_simp

section \<open>The constructor and the seed\<close>

text \<open>
  Claim C7 against the code.  A solver built with seed 0 keeps 0 as its initial seed and
  seeds the generator with 0, whatever number the entropy source would deliver: the
  source is not read.
\<close>

theorem Solver_new_seed_zero:
  "s_initialSeed (Solver_new lib maxIt eps para n a 0 rd) = 0 \<and>
   s_randomGenerator (Solver_new lib maxIt eps para n a 0 rd) = seed_generator lib 0"
  by (simp add: Solver_new_def)

section \<open>The decimation step and the list of unassigned variables\<close>

lemma evalLoop_list:
  "evalLoop vs (us, sumMaxBias, g) = Inr (us', sumMaxBias', g') \<Longrightarrow> us' = us"
proof (induction vs arbitrary: sumMaxBias g)
  case Nil
  then show ?case by simp
next
  case (Cons v vs)
  then show ?case
    by (auto split: if_splits sum.splits)
qed

lemma collectUnassigned_empty:
  "collectUnassigned g = Inr (us, sumMaxBias, g') \<Longrightarrow> us = []"
  unfolding collectUnassigned_def by (rule evalLoop_list)

lemma decimate_no_WALKSAT: "decimate n s fraction g \<noteq> Some (Inr (Some WALKSAT, g'))"
proof (cases "collectUnassigned g")
  case (Inl a)
  then show ?thesis by (simp add: decimate_def)
next
  case (Inr r)
  obtain us sumMaxBias g1 where r: "r = (us, sumMaxBias, g1)"
    by (cases r) auto
  with Inr have "us = []"
    by (auto dest: collectUnassigned_empty)
  with Inr r show ?thesis
    by (simp add: decimate_def paramagneticTest_def)
qed

text \<open>
  In the fixing loop an entry that is already assigned is read again and again: the
  \<^verbatim>\<open>i--\<close> of the body and the \<^verbatim>\<open>i++\<close> of the loop header leave the index where
  it was, and no bound is enough for the loop to end.
\<close>

lemma fixLoop_spins:
  "v_assigned (var_h g v) \<Longrightarrow> fixLoop n [v] 1 0 g = None"
  by (induction n) simp_all

text \<open>
  Claim C4 against the code.  Survey propagation converges on \<open>gOneInit\<close> and leaves
  both variables unassigned, but the list that the driver then sorts and walks is empty.
  With the empty list \<open>k\<close> is 1, and the first pass of the fixing loop reads element 0
  of the empty list.
\<close>

theorem SID_unassignedVariables_empty:
  "resultOf (surveyPropagation plainLib exSolver gOneInit) = Inr CONVERGE \<and>
   unassignedIn gOneConv = [0, 1] \<and>
   resultOf (collectUnassigned gOneConv) = Inr [] \<and>
   assignFractionOf [] (1 / 2) = 1 \<and>
   outcomeOf (fixLoop 1 (sortByEvalValue gOneConv []) (assignFractionOf [] (1 / 2)) 0 gOneConv)
     = Some (Inl IndexOutOfRange)"
  by code_simp

text \<open>
  Claim C5 against the code.  On \<open>gOneConv\<close> the largest biases of the two unassigned
  variables sum to 0, so the mean of the claim is \<open>0 / 2 = 0\<close>, below the threshold
  1/100, and the claim has \<^verbatim>\<open>SID\<close> return \<^verbatim>\<open>WALKSAT\<close>.  The code divides the sum
  by the length of the empty list and does not return \<^verbatim>\<open>WALKSAT\<close>.
\<close>

theorem decimate_paramagnetic_example:
  "fst (snd (projr (collectUnassigned gOneConv))) = 0 \<and>
   length (unassignedIn gOneConv) = 2 \<and>
   (0 :: real) / 2 < s_paramagneticState exSolver \<and>
   outcomeOf (decimate 1 exSolver (1 / 2) gOneConv) = Some (Inl DivisionByZero)"
  by code_simp

text \<open>
  Claim C8 against the code.  \<^verbatim>\<open>SID\<close> on \<open>gOne\<close> reaches the paramagnetic test and
  divides by the length of the empty list.  Survey propagation on \<open>gNeg\<close> saturates
  the survey of the unit clause and then, in the clause \<open>(\<not>x0 \<or> x1)\<close>, computes
  \<open>wn = 0\<close> and \<open>wt = m = 0\<close> for the negative edge and divides by their sum.
\<close>

theorem SID_division_by_zero_examples:
  "outcomeOf (SID 1 plainLib exSolver gOne (1 / 2)) = Some (Inl DivisionByZero) \<and>
   resultOf (surveyPropagation plainLib exSolver gNeg) = Inl DivisionByZero"
  by code_simp

section \<open>The initial surveys\<close>

lemma initSurveys_rng:
  "fst (initSurveys lib es r g) = afterDraws lib r (length es)"
  by (induction es arbitrary: r g) (auto split: prod.splits)

lemma initSurveys_frame:
  "variables (snd (initSurveys lib es r g)) = variables g \<and>
   clauses (snd (initSurveys lib es r g)) = clauses g \<and>
   edges (snd (initSurveys lib es r g)) = edges g \<and>
   var_h (snd (initSurveys lib es r g)) = var_h g \<and>
   clause_h (snd (initSurveys lib es r g)) = clause_h g"
  by (induction es arbitrary: r g) (auto split: prod.splits)

lemma initSurveys_other:
  "e \<notin> set es \<Longrightarrow> edge_h (snd (initSurveys lib es r g)) e = edge_h g e"
  by (induction es arbitrary: r g) (auto split: prod.splits)

lemma initSurveys_fields:
  "e_variable (edge_h (snd (initSurveys lib es r g)) e) = e_variable (edge_h g e) \<and>
   e_clause (edge_h (snd (initSurveys lib es r g)) e) = e_clause (edge_h g e) \<and>
   e_type (edge_h (snd (initSurveys lib es r g)) e) = e_type (edge_h g e) \<and>
   e_enabled (edge_h (snd (initSurveys lib es r g)) e) = e_enabled (edge_h g e)"
  by (induction es arbitrary: r g) (auto split: prod.splits)

lemma initSurveys_draws:
  "distinct es \<Longrightarrow>
   map (\<lambda>e. e_survey (edge_h (snd (initSurveys lib es r g)) e)) es = draws lib r (length es)"
proof (induction es arbitrary: r g)
  case Nil
  then show ?case by simp
next
  case (Cons e es)
  obtain x r' where d: "getRandomReal01 lib r = (x, r')"
    by (cases "getRandomReal01 lib r")
  let ?g1 = "g\<lparr>edge_h := (edge_h g)(e := (edge_h g e)\<lparr>e_survey := x\<rparr>)\<rparr>"
  have e: "e \<notin> set es" and dist: "distinct es"
    using Cons.prems by simp_all
  have "e_survey (edge_h (snd (initSurveys lib es r' ?g1)) e) = x"
    using initSurveys_other [OF e, of lib r' ?g1] by simp
  moreover have "map (\<lambda>e. e_survey (edge_h (snd (initSurveys lib es r' ?g1)) e)) es
      = draws lib r' (length es)"
    using dist by (rule Cons.IH)
  ultimately show ?case
    using d by simp
qed

lemma withSurveys_store:
  "(withSurveys f g)\<lparr>edge_h := (edge_h (withSurveys f g))
      (e := (edge_h (withSurveys f g) e)\<lparr>e_survey := x\<rparr>)\<rparr>
   = withSurveys (f(e := x)) (g\<lparr>edge_h := (edge_h g)(e := (edge_h g e)\<lparr>e_survey := x\<rparr>)\<rparr>)"
  by (auto simp add: withSurveys_def fun_eq_iff)

lemma withSurveys_same:
  "(\<forall>e. f e = e_survey (edge_h g e)) \<Longrightarrow> withSurveys f g = g"
  by (simp add: withSurveys_def)

lemma initSurveys_discards:
  "(\<forall>e. e \<notin> set es \<longrightarrow> f e = e_survey (edge_h g e)) \<Longrightarrow>
   initSurveys lib es r (withSurveys f g) = initSurveys lib es r g"
proof (induction es arbitrary: r g f)
  case Nil
  then show ?case
    by (simp add: withSurveys_same)
next
  case (Cons e es)
  obtain x r' where d: "getRandomReal01 lib r = (x, r')"
    by (cases "getRandomReal01 lib r")
  let ?g1 = "g\<lparr>edge_h := (edge_h g)(e := (edge_h g e)\<lparr>e_survey := x\<rparr>)\<rparr>"
  have "\<forall>e'. e' \<notin> set es \<longrightarrow> (f(e := x)) e' = e_survey (edge_h ?g1 e')"
    using Cons.prems by simp
  then have "initSurveys lib es r' (withSurveys (f(e := x)) ?g1) = initSurveys lib es r' ?g1"
    by (rule Cons.IH)
  then show ?case
    using d by (simp add: withSurveys_store)
qed

lemma draws_range:
  "(\<forall>r. 0 \<le> fst (getRandomReal01 lib r) \<and> fst (getRandomReal01 lib r) < 1) \<Longrightarrow>
   x \<in> set (draws lib r k) \<Longrightarrow> 0 \<le> x \<and> x < 1"
proof (induction k arbitrary: r)
  case 0
  then show ?case by simp
next
  case (Suc k)
  obtain y r' where d: "getRandomReal01 lib r = (y, r')"
    by (cases "getRandomReal01 lib r")
  from Suc.prems(1) have "0 \<le> fst (getRandomReal01 lib r) \<and> fst (getRandomReal01 lib r) < 1"
    by blast
  with d have y: "0 \<le> y \<and> y < 1" by simp
  from Suc.prems(2) d have "x = y \<or> x \<in> set (draws lib r' k)" by simp
  then show ?case
    using y Suc.IH [OF Suc.prems(1)] by blast
qed

text \<open>
  Claim C10.  \<^verbatim>\<open>SID\<close> starts by drawing one number per entry of \<^verbatim>\<open>fg->edges\<close>
  from the solver's generator and storing it as the survey of that edge, enabled or not;
  the loop that runs survey propagation starts from the graph \<open>g'\<close> and the generator
  state \<open>r'\<close> that this leaves.  When \<^verbatim>\<open>fg->edges\<close> lists every edge once, the
  surveys of its edges are, in order, the first draws of the generator; they lie in
  \<open>[0, 1)\<close> when the generator's numbers do; and whatever surveys \<open>f\<close> the edges
  of \<^verbatim>\<open>fg->edges\<close> carried before, the initial draws and the whole run are the same.
\<close>

theorem SID_initial_surveys:
  assumes "distinct (edges g)"
      and "initSurveys lib (edges g) (s_randomGenerator s) g = (r', g')"
  shows "SID n lib s g fraction = SIDLoop n lib (s\<lparr>s_randomGenerator := r'\<rparr>) fraction g' \<and>
         surveysOf g' = draws lib (s_randomGenerator s) (length (edges g)) \<and>
         r' = afterDraws lib (s_randomGenerator s) (length (edges g)) \<and>
         ((\<forall>r. 0 \<le> fst (getRandomReal01 lib r) \<and> fst (getRandomReal01 lib r) < 1) \<longrightarrow>
            (\<forall>e\<in>set (edges g). 0 \<le> e_survey (edge_h g' e) \<and> e_survey (edge_h g' e) < 1)) \<and>
         ((\<forall>e. e \<notin> set (edges g) \<longrightarrow> f e = e_survey (edge_h g e)) \<longrightarrow>
            initSurveys lib (edges g) (s_randomGenerator s) (withSurveys f g) = (r', g') \<and>
            SID n lib s (withSurveys f g) fraction = SID n lib s g fraction)"
proof -
  have g': "g' = snd (initSurveys lib (edges g) (s_randomGenerator s) g)"
    and r': "r' = fst (initSurveys lib (edges g) (s_randomGenerator s) g)"
    using assms(2) by simp_all
  have eg: "edges g' = edges g"
    unfolding g' using initSurveys_frame by blast
  have A: "SID n lib s g fraction = SIDLoop n lib (s\<lparr>s_randomGenerator := r'\<rparr>) fraction g'"
    using assms(2) by (simp add: SID_def)
  have B: "surveysOf g' = draws lib (s_randomGenerator s) (length (edges g))"
    unfolding surveysOf_def eg unfolding g' using assms(1) by (rule initSurveys_draws)
  have C: "r' = afterDraws lib (s_randomGenerator s) (length (edges g))"
    unfolding r' by (rule initSurveys_rng)
  have D: "\<forall>e\<in>set (edges g). 0 \<le> e_survey (edge_h g' e) \<and> e_survey (edge_h g' e) < 1"
    if lib: "\<forall>r. 0 \<le> fst (getRandomReal01 lib r) \<and> fst (getRandomReal01 lib r) < 1"
  proof
    fix e assume "e \<in> set (edges g)"
    then have "e_survey (edge_h g' e) \<in> set (surveysOf g')"
      unfolding surveysOf_def eg by simp
    then have "e_survey (edge_h g' e) \<in> set (draws lib (s_randomGenerator s) (length (edges g)))"
      unfolding B .
    then show "0 \<le> e_survey (edge_h g' e) \<and> e_survey (edge_h g' e) < 1"
      using lib by (rule draws_range [rotated])
  qed
  have E: "initSurveys lib (edges g) (s_randomGenerator s) (withSurveys f g) = (r', g') \<and>
      SID n lib s (withSurveys f g) fraction = SID n lib s g fraction"
    if f: "\<forall>e. e \<notin> set (edges g) \<longrightarrow> f e = e_survey (edge_h g e)"
  proof -
    have "initSurveys lib (edges g) (s_randomGenerator s) (withSurveys f g) = (r', g')"
      using initSurveys_discards [OF f, of lib "s_randomGenerator s"] assms(2) by simp
    moreover have "edges (withSurveys f g) = edges g"
      by (simp add: withSurveys_def)
    ultimately show ?thesis
      using assms(2) by (simp add: SID_def)
  qed
  show ?thesis
    using A B C D E by blast
qed


text \<open>
  Witness for C10: \<open>gOne\<close> with the generator that always delivers 1/200, against the
  same graph with the surveys 1/3.
\<close>

theorem SID_initial_surveys_witness:
  "distinct (edges gOne) \<and>
   (\<forall>r. 0 \<le> fst (getRandomReal01 plainLib r) \<and> fst (getRandomReal01 plainLib r) < 1) \<and>
   (\<forall>e. e \<in> set (edges gOne) \<or> (if e < 2 then 1 / 3 else 0) = e_survey (edge_h gOne e)) \<and>
   surveysOf gOneInit = draws plainLib (s_randomGenerator exSolver) (length (edges gOne)) \<and>
   surveysOf gOneInit = [1 / 200, 1 / 200] \<and>
   0 \<le> e_survey (edge_h gOneInit 0) \<and> e_survey (edge_h gOneInit 0) < 1 \<and>
   0 \<le> e_survey (edge_h gOneInit 1) \<and> e_survey (edge_h gOneInit 1) < 1 \<and>
   SID 1 plainLib exSolver (withSurveys (\<lambda>e. if e < 2 then 1 / 3 else 0) gOne) (1 / 2)
     = SID 1 plainLib exSolver gOne (1 / 2)"
proof -
  let ?f = "\<lambda>e::addr. if e < 2 then 1 / 3 else (0::real)"
  have d: "distinct (edges gOne)"
    by (simp add: gOne_def)
  have i: "initSurveys plainLib (edges gOne) (s_randomGenerator exSolver) gOne
      = (fst (initSurveys plainLib (edges gOne) (s_randomGenerator exSolver) gOne), gOneInit)"
    by (simp add: gOneInit_def)
  have lib: "\<forall>r. 0 \<le> fst (getRandomReal01 plainLib r) \<and> fst (getRandomReal01 plainLib r) < 1"
    by (simp add: plainLib_def)
  have f: "\<forall>e. e \<notin> set (edges gOne) \<longrightarrow> ?f e = e_survey (edge_h gOne e)"
    by (simp add: gOne_def mkEdge_def)
  have f': "\<forall>e. e \<in> set (edges gOne) \<or> ?f e = e_survey (edge_h gOne e)"
    using f by blast
  note t = SID_initial_surveys [OF d i, of 1 "1 / 2" ?f]
  have s1: "surveysOf gOneInit = draws plainLib (s_randomGenerator exSolver) (length (edges gOne))"
    using t by blast
  have s2: "surveysOf gOneInit = [1 / 200, 1 / 200]"
    unfolding s1 by (simp add: gOne_def plainLib_def eval_nat_numeral)
  have "\<forall>e\<in>set (edges gOne). 0 \<le> e_survey (edge_h gOneInit e) \<and> e_survey (edge_h gOneInit e) < 1"
    using t lib by blast
  then have s3: "0 \<le> e_survey (edge_h gOneInit 0) \<and> e_survey (edge_h gOneInit 0) < 1 \<and>
      0 \<le> e_survey (edge_h gOneInit 1) \<and> e_survey (edge_h gOneInit 1) < 1"
    by (simp add: gOne_def)
  have s4: "SID 1 plainLib exSolver (withSurveys ?f gOne) (1 / 2)
      = SID 1 plainLib exSolver gOne (1 / 2)"
    using t f by blast
  show ?thesis
    using d lib f' s1 s2 s3 s4 by blast
qed


section \<open>The result of the survey-propagation driver\<close>

lemma sweep_spEpsilon:
  "sweep lib (d, s, g) = Inr (d', s', g') \<Longrightarrow> s_spEpsilon s' = s_spEpsilon s"
  by (auto simp add: sweep_def split: prod.splits sum.splits)

lemma spLoop_result:
  assumes "spLoop lib n (d0, s, g) = Inr (res, s', g')"
  shows "(\<exists>k d. 1 \<le> k \<and> k \<le> n \<and> sweeps lib k (d0, s, g) = Inr (d, s', g') \<and>
            (\<forall>j. 1 \<le> j \<and> j < k \<longrightarrow> thresholdMissed lib (s_spEpsilon s) (d0, s, g) j) \<and>
            d \<le> s_spEpsilon s \<and>
            res = (if d < ZERO_EPSILON then WALKSAT else CONVERGE)) \<or>
         (res = UNCONVERGE \<and>
          (\<exists>d. sweeps lib n (d0, s, g) = Inr (d, s', g')) \<and>
          (\<forall>j. 1 \<le> j \<and> j \<le> n \<longrightarrow> thresholdMissed lib (s_spEpsilon s) (d0, s, g) j))"
  using assms
proof (induction n arbitrary: d0 s g)
  case 0
  then show ?case by auto
next
  case (Suc n)
  from Suc.prems obtain d1 s1 g1 where sw: "sweep lib (d0, s, g) = Inr (d1, s1, g1)"
    by (cases "sweep lib (d0, s, g)") auto
  have eps: "s_spEpsilon s1 = s_spEpsilon s"
    using sw by (rule sweep_spEpsilon)
  have one: "sweeps lib 1 (d0, s, g) = Inr (d1, s1, g1)"
    using sw by simp
  have step: "sweeps lib (Suc j) (d0, s, g) = sweeps lib j (d1, s1, g1)" for j
    using sw by simp
  show ?case
  proof (cases "d1 \<le> s_spEpsilon s")
    case True
    with Suc.prems sw eps have "s' = s1" "g' = g1"
      "res = (if d1 < ZERO_EPSILON then WALKSAT else CONVERGE)"
      by (auto split: if_splits)
    with one True have "1 \<le> (1::nat) \<and> 1 \<le> Suc n \<and> sweeps lib 1 (d0, s, g) = Inr (d1, s', g') \<and>
        (\<forall>j. 1 \<le> j \<and> j < 1 \<longrightarrow> thresholdMissed lib (s_spEpsilon s) (d0, s, g) j) \<and>
        d1 \<le> s_spEpsilon s \<and> res = (if d1 < ZERO_EPSILON then WALKSAT else CONVERGE)"
      by auto
    then show ?thesis by blast
  next
    case False
    with Suc.prems sw eps have rec: "spLoop lib n (d1, s1, g1) = Inr (res, s', g')"
      by simp
    have missed1: "thresholdMissed lib (s_spEpsilon s) (d0, s, g) 1"
      using one False by (simp add: thresholdMissed_def)
    have shift: "thresholdMissed lib (s_spEpsilon s) (d0, s, g) (Suc j)
        = thresholdMissed lib (s_spEpsilon s) (d1, s1, g1) j" for j
      unfolding thresholdMissed_def step ..
    from Suc.IH [OF rec] show ?thesis
    proof
      assume "\<exists>k d. 1 \<le> k \<and> k \<le> n \<and> sweeps lib k (d1, s1, g1) = Inr (d, s', g') \<and>
            (\<forall>j. 1 \<le> j \<and> j < k \<longrightarrow> thresholdMissed lib (s_spEpsilon s1) (d1, s1, g1) j) \<and>
            d \<le> s_spEpsilon s1 \<and>
            res = (if d < ZERO_EPSILON then WALKSAT else CONVERGE)"
      then obtain k d where k: "1 \<le> k" "k \<le> n" "sweeps lib k (d1, s1, g1) = Inr (d, s', g')"
        "\<forall>j. 1 \<le> j \<and> j < k \<longrightarrow> thresholdMissed lib (s_spEpsilon s1) (d1, s1, g1) j"
        "d \<le> s_spEpsilon s1" "res = (if d < ZERO_EPSILON then WALKSAT else CONVERGE)"
        by blast
      have "\<forall>j. 1 \<le> j \<and> j < Suc k \<longrightarrow> thresholdMissed lib (s_spEpsilon s) (d0, s, g) j"
      proof (intro allI impI)
        fix j assume j: "1 \<le> j \<and> j < Suc k"
        show "thresholdMissed lib (s_spEpsilon s) (d0, s, g) j"
        proof (cases j)
          case 0
          with j show ?thesis by simp
        next
          case (Suc i)
          show ?thesis
          proof (cases i)
            case 0
            with Suc missed1 show ?thesis by simp
          next
            case (Suc i')
            with \<open>j = Suc i\<close> j k(4) eps show ?thesis
              unfolding \<open>j = Suc i\<close> shift by simp
          qed
        qed
      qed
      with k eps have "1 \<le> Suc k \<and> Suc k \<le> Suc n \<and>
          sweeps lib (Suc k) (d0, s, g) = Inr (d, s', g') \<and>
          (\<forall>j. 1 \<le> j \<and> j < Suc k \<longrightarrow> thresholdMissed lib (s_spEpsilon s) (d0, s, g) j) \<and>
          d \<le> s_spEpsilon s \<and> res = (if d < ZERO_EPSILON then WALKSAT else CONVERGE)"
        unfolding step by simp
      then show ?thesis by blast
    next
      assume "res = UNCONVERGE \<and>
          (\<exists>d. sweeps lib n (d1, s1, g1) = Inr (d, s', g')) \<and>
          (\<forall>j. 1 \<le> j \<and> j \<le> n \<longrightarrow> thresholdMissed lib (s_spEpsilon s1) (d1, s1, g1) j)"
      then have u: "res = UNCONVERGE" "\<exists>d. sweeps lib n (d1, s1, g1) = Inr (d, s', g')"
        "\<forall>j. 1 \<le> j \<and> j \<le> n \<longrightarrow> thresholdMissed lib (s_spEpsilon s1) (d1, s1, g1) j"
        by blast+
      have "\<forall>j. 1 \<le> j \<and> j \<le> Suc n \<longrightarrow> thresholdMissed lib (s_spEpsilon s) (d0, s, g) j"
      proof (intro allI impI)
        fix j assume j: "1 \<le> j \<and> j \<le> Suc n"
        show "thresholdMissed lib (s_spEpsilon s) (d0, s, g) j"
        proof (cases j)
          case 0
          with j show ?thesis by simp
        next
          case (Suc i)
          show ?thesis
          proof (cases i)
            case 0
            with Suc missed1 show ?thesis by simp
          next
            case (Suc i')
            with \<open>j = Suc i\<close> j u(3) eps show ?thesis
              unfolding \<open>j = Suc i\<close> shift by simp
          qed
        qed
      qed
      with u show ?thesis
        unfolding step by blast
    qed
  qed
qed

text \<open>
  The value compared after a sweep is \<^verbatim>\<open>maxConvergeDiff\<close>, which is set to 0 once,
  before the first sweep (line 114), and only ever raised (lines 129-130): the compared
  values never decrease from one sweep to the next.
\<close>

lemma sweepClauses_mono:
  "sweepClauses cs d g = Inr (d', g') \<Longrightarrow> d \<le> d'"
proof (induction cs arbitrary: d g)
  case Nil
  then show ?case by simp
next
  case (Cons c cs)
  from Cons.prems obtain dc g1 where u: "updateSurveys g c = Inr (dc, g1)"
    by (cases "updateSurveys g c") auto
  with Cons.prems have "sweepClauses cs (if dc > d then dc else d) g1 = Inr (d', g')"
    by simp
  then have "(if dc > d then dc else d) \<le> d'"
    by (rule Cons.IH)
  then show ?case
    by (simp split: if_splits)
qed

lemma sweep_mono:
  "sweep lib (d, s, g) = Inr (d', s', g') \<Longrightarrow> d \<le> d'"
  by (auto simp add: sweep_def split: prod.splits sum.splits dest: sweepClauses_mono)

text \<open>
  What the driver returns, in terms of the values \<open>d\<close> of \<^verbatim>\<open>maxConvergeDiff\<close> that
  it compares with \<^verbatim>\<open>spEpsilon\<close> after each sweep: either some sweep \<open>k\<close> of the
  first \<^verbatim>\<open>spMaxIt\<close> is the first whose compared value is at most \<^verbatim>\<open>spEpsilon\<close>, the
  driver returns the state after that sweep, and the result is \<^verbatim>\<open>WALKSAT\<close> when that
  value is below \<open>ZERO_EPSILON\<close> and \<^verbatim>\<open>CONVERGE\<close> when it is not; or all
  \<^verbatim>\<open>spMaxIt\<close> sweeps end above \<^verbatim>\<open>spEpsilon\<close> and the result is \<^verbatim>\<open>UNCONVERGE\<close>.
\<close>

lemma surveyPropagation_compared:
  assumes "surveyPropagation lib s g = Inr (res, s', g')"
  shows "(\<exists>k d. 1 \<le> k \<and> k \<le> nat (s_spMaxIt s) \<and>
            sweeps lib k (0, s, computeSubProducts g) = Inr (d, s', g') \<and>
            (\<forall>j. 1 \<le> j \<and> j < k \<longrightarrow>
               thresholdMissed lib (s_spEpsilon s) (0, s, computeSubProducts g) j) \<and>
            d \<le> s_spEpsilon s \<and>
            res = (if d < ZERO_EPSILON then WALKSAT else CONVERGE)) \<or>
         (res = UNCONVERGE \<and>
          (\<exists>d. sweeps lib (nat (s_spMaxIt s)) (0, s, computeSubProducts g) = Inr (d, s', g')) \<and>
          (\<forall>j. 1 \<le> j \<and> j \<le> nat (s_spMaxIt s) \<longrightarrow>
             thresholdMissed lib (s_spEpsilon s) (0, s, computeSubProducts g) j))"
  using assms unfolding surveyPropagation_def by (rule spLoop_result)

text \<open>
  Because the compared value is never reset, a sweep that ends above \<^verbatim>\<open>spEpsilon\<close>
  puts every later sweep above it as well, whatever the later sweeps do to the surveys:
  from then on the driver can only return \<^verbatim>\<open>UNCONVERGE\<close>.  Hence \<^verbatim>\<open>CONVERGE\<close>
  and \<^verbatim>\<open>WALKSAT\<close> are returned after the first sweep or never.
\<close>

lemma spLoop_above_threshold:
  assumes "s_spEpsilon s < d" and "spLoop lib n (d, s, g) = Inr (res, s', g')"
  shows "res = UNCONVERGE"
  using assms
proof (induction n arbitrary: d s g)
  case 0
  then show ?case by simp
next
  case (Suc n)
  from Suc.prems(2) obtain d1 s1 g1 where sw: "sweep lib (d, s, g) = Inr (d1, s1, g1)"
    by (cases "sweep lib (d, s, g)") auto
  have eps: "s_spEpsilon s1 = s_spEpsilon s"
    using sw by (rule sweep_spEpsilon)
  have "d \<le> d1"
    using sw by (rule sweep_mono)
  with Suc.prems(1) eps have above: "s_spEpsilon s1 < d1"
    by simp
  with Suc.prems(2) sw have "spLoop lib n (d1, s1, g1) = Inr (res, s', g')"
    by simp
  with above show ?case
    by (rule Suc.IH)
qed

lemma surveyPropagation_first_sweep_only:
  assumes "surveyPropagation lib s g = Inr (res, s', g')" and "res \<noteq> UNCONVERGE"
  shows "\<exists>d. sweep lib (0, s, computeSubProducts g) = Inr (d, s', g') \<and> d \<le> s_spEpsilon s"
proof -
  obtain n where n: "nat (s_spMaxIt s) = n"
    by simp
  from assms(1) have run: "spLoop lib n (0, s, computeSubProducts g) = Inr (res, s', g')"
    unfolding surveyPropagation_def n .
  show ?thesis
  proof (cases n)
    case 0
    with run assms(2) show ?thesis by simp
  next
    case (Suc m)
    from run Suc obtain d1 s1 g1
      where sw: "sweep lib (0, s, computeSubProducts g) = Inr (d1, s1, g1)"
      by (cases "sweep lib (0, s, computeSubProducts g)") auto
    have eps: "s_spEpsilon s1 = s_spEpsilon s"
      using sw by (rule sweep_spEpsilon)
    show ?thesis
    proof (cases "d1 \<le> s_spEpsilon s")
      case True
      with run Suc sw eps have "s' = s1" "g' = g1"
        by (auto split: if_splits)
      with sw True show ?thesis by simp
    next
      case False
      with run Suc sw eps have "spLoop lib m (d1, s1, g1) = Inr (res, s', g')"
        by simp
      moreover from False eps have "s_spEpsilon s1 < d1"
        by simp
      ultimately have "res = UNCONVERGE"
        by (intro spLoop_above_threshold)
      with assms(2) show ?thesis by simp
    qed
  qed
qed

text \<open>
  Claim C1 against the code.  The claim compares, after each sweep, the largest change
  of a survey during that sweep alone, and returns \<^verbatim>\<open>WALKSAT\<close> only when every
  survey is below \<open>ZERO_EPSILON\<close>.

  (a) On \<open>gOneHalf\<close> the first sweep takes both surveys from 1/2 to 0, a change of 1/2.
  The second sweep, run on its own from the graph \<open>gOneHalfSwept\<close> that the first one
  leaves, changes nothing: its largest change is 0 and both surveys stay 0, so the claim
  has the driver stop there with the trivial result.  The value the code compares after
  the second sweep is still 1/2, the maximum over both sweeps, and the driver runs out of
  its three sweeps and returns \<^verbatim>\<open>UNCONVERGE\<close>.

  (b) On \<open>gCycle\<close> the first sweep changes no survey, the compared value is 0 and the
  driver returns \<^verbatim>\<open>WALKSAT\<close>, although the surveys of the edges 1 and 2 are 1/2, not
  below \<open>ZERO_EPSILON\<close>: the surveys are not inspected, against the claim and against
  the comment at lines 135-136, for which a difference of 0 means that all surveys are 0.
\<close>

theorem surveyPropagation_maxConvergeDiff_never_reset:
  "resultOf (sweeps plainLib 1 (0, exSolver, computeSubProducts gOneHalf)) = Inr (1 / 2) \<and>
   surveysOf gOneHalfSwept = [0, 0] \<and>
   resultOf (sweepClauses (GetEnabledClauses gOneHalfSwept) 0 gOneHalfSwept) = Inr 0 \<and>
   surveysOf (snd (projr (sweepClauses (GetEnabledClauses gOneHalfSwept) 0 gOneHalfSwept)))
     = [0, 0] \<and>
   resultOf (sweeps plainLib 2 (0, exSolver, computeSubProducts gOneHalf)) = Inr (1 / 2) \<and>
   resultOf (surveyPropagation plainLib exSolver gOneHalf) = Inr UNCONVERGE \<and>
   resultOf (surveyPropagation plainLib exSolver gCycle) = Inr WALKSAT \<and>
   surveysOf (graphOf (surveyPropagation plainLib exSolver gCycle)) = [0, 1 / 2, 1 / 2, 0] \<and>
   \<not> (1 / 2 < ZERO_EPSILON)"
  by code_simp



section \<open>The subproducts after a survey update\<close>

lemma ZERO_EPSILON_pos: "0 < ZERO_EPSILON"
  by (simp add: ZERO_EPSILON_def)

lemma edgeFactor_pos: "0 < edgeFactor t edge"
  using ZERO_EPSILON_pos by (auto simp add: edgeFactor_def)

lemma subProductOf_factors:
  "subProductOf eh t es = prod_list (map (\<lambda>e. edgeFactor t (eh e)) es)"
  by (induction es) (simp_all add: subProductOf_def liveEdges_def edgeFactor_def)

lemma saturatedEdges_count:
  "int (length (saturatedEdges eh t es)) = sum_list (map (\<lambda>e. edgeSaturated t (eh e)) es)"
  by (induction es) (simp_all add: saturatedEdges_def edgeSaturated_def)

lemma subProductStep_fields:
  "v_p (subProductStep edge var) = v_p var * edgeFactor True edge"
  "v_pzero (subProductStep edge var) = v_pzero var + edgeSaturated True edge"
  "v_m (subProductStep edge var) = v_m var * edgeFactor False edge"
  "v_mzero (subProductStep edge var) = v_mzero var + edgeSaturated False edge"
  by (simp_all add: subProductStep_def edgeFactor_def edgeSaturated_def)

lemma subProductStep_rest:
  "subProductStep edge var
     = var\<lparr>v_p := v_p (subProductStep edge var), v_pzero := v_pzero (subProductStep edge var),
           v_m := v_m (subProductStep edge var), v_mzero := v_mzero (subProductStep edge var)\<rparr>"
  by (simp add: subProductStep_def)

lemma subProductsLoop_eq:
  "subProductsLoop eh es var
     = var\<lparr>v_p := v_p var * prod_list (map (\<lambda>e. edgeFactor True (eh e)) es),
           v_pzero := v_pzero var + sum_list (map (\<lambda>e. edgeSaturated True (eh e)) es),
           v_m := v_m var * prod_list (map (\<lambda>e. edgeFactor False (eh e)) es),
           v_mzero := v_mzero var + sum_list (map (\<lambda>e. edgeSaturated False (eh e)) es)\<rparr>"
proof (induction es arbitrary: var)
  case Nil
  then show ?case by simp
next
  case (Cons e es)
  have "subProductsLoop eh (e # es) var = subProductsLoop eh es (subProductStep (eh e) var)"
    by simp
  also have "\<dots> = (subProductStep (eh e) var)
      \<lparr>v_p := v_p (subProductStep (eh e) var) * prod_list (map (\<lambda>e. edgeFactor True (eh e)) es),
       v_pzero := v_pzero (subProductStep (eh e) var)
                    + sum_list (map (\<lambda>e. edgeSaturated True (eh e)) es),
       v_m := v_m (subProductStep (eh e) var) * prod_list (map (\<lambda>e. edgeFactor False (eh e)) es),
       v_mzero := v_mzero (subProductStep (eh e) var)
                    + sum_list (map (\<lambda>e. edgeSaturated False (eh e)) es)\<rparr>"
    by (rule Cons.IH)
  also have "\<dots> = var
      \<lparr>v_p := v_p var * prod_list (map (\<lambda>e. edgeFactor True (eh e)) (e # es)),
       v_pzero := v_pzero var + sum_list (map (\<lambda>e. edgeSaturated True (eh e)) (e # es)),
       v_m := v_m var * prod_list (map (\<lambda>e. edgeFactor False (eh e)) (e # es)),
       v_mzero := v_mzero var + sum_list (map (\<lambda>e. edgeSaturated False (eh e)) (e # es))\<rparr>"
    by (subst subProductStep_rest) (simp add: subProductStep_fields mult.assoc)
  finally show ?case .
qed

lemma I1_var_factors:
  "I1_var eh var \<longleftrightarrow>
     v_p var = prod_list (map (\<lambda>e. edgeFactor True (eh e)) (v_allNeighbourEdges var)) \<and>
     v_pzero var = sum_list (map (\<lambda>e. edgeSaturated True (eh e)) (v_allNeighbourEdges var)) \<and>
     v_m var = prod_list (map (\<lambda>e. edgeFactor False (eh e)) (v_allNeighbourEdges var)) \<and>
     v_mzero var = sum_list (map (\<lambda>e. edgeSaturated False (eh e)) (v_allNeighbourEdges var))"
  by (simp add: I1_var_def subProductOf_factors saturatedEdges_count)

lemma computeSubProductsVar_eq:
  "\<not> v_assigned var \<Longrightarrow>
   computeSubProductsVar eh var
     = var\<lparr>v_p := prod_list (map (\<lambda>e. edgeFactor True (eh e)) (v_allNeighbourEdges var)),
           v_pzero := sum_list (map (\<lambda>e. edgeSaturated True (eh e)) (v_allNeighbourEdges var)),
           v_m := prod_list (map (\<lambda>e. edgeFactor False (eh e)) (v_allNeighbourEdges var)),
           v_mzero := sum_list (map (\<lambda>e. edgeSaturated False (eh e)) (v_allNeighbourEdges var))\<rparr>"
  by (simp add: computeSubProductsVar_def subProductsLoop_eq)

lemma computeSubProductsVar_fixed:
  "v_assigned var \<or> I1_var eh var \<Longrightarrow> computeSubProductsVar eh var = var"
proof (cases "v_assigned var")
  case True
  then show ?thesis by (simp add: computeSubProductsVar_def)
next
  case False
  assume "v_assigned var \<or> I1_var eh var"
  with False have "I1_var eh var" by simp
  then show ?thesis
    unfolding computeSubProductsVar_eq [OF False] I1_var_factors by simp
qed

lemma computeSubProductsVar_I1:
  "\<not> v_assigned var \<Longrightarrow> I1_var eh (computeSubProductsVar eh var)"
  unfolding I1_var_factors by (simp add: computeSubProductsVar_eq)

lemma computeSubProductsVar_keeps:
  "v_assigned (computeSubProductsVar eh var) = v_assigned var \<and>
   v_allNeighbourEdges (computeSubProductsVar eh var) = v_allNeighbourEdges var"
proof (cases "v_assigned var")
  case True
  then show ?thesis by (simp add: computeSubProductsVar_def)
next
  case False
  then show ?thesis by (simp add: computeSubProductsVar_eq)
qed

lemma computeSubProductsLoop_frame:
  "variables (computeSubProductsLoop vs g) = variables g \<and>
   clauses (computeSubProductsLoop vs g) = clauses g \<and>
   edges (computeSubProductsLoop vs g) = edges g \<and>
   clause_h (computeSubProductsLoop vs g) = clause_h g \<and>
   edge_h (computeSubProductsLoop vs g) = edge_h g"
  by (induction vs arbitrary: g) simp_all

lemma computeSubProductsLoop_var:
  "var_h (computeSubProductsLoop vs g) v
     = (if v \<in> set vs then computeSubProductsVar (edge_h g) (var_h g v) else var_h g v)"
proof (induction vs arbitrary: g)
  case Nil
  then show ?case by simp
next
  case (Cons w vs)
  let ?g1 = "g\<lparr>var_h := (var_h g)(w := computeSubProductsVar (edge_h g) (var_h g w))\<rparr>"
  have idem: "computeSubProductsVar (edge_h g) (computeSubProductsVar (edge_h g) (var_h g w))
      = computeSubProductsVar (edge_h g) (var_h g w)"
  proof (rule computeSubProductsVar_fixed, cases "v_assigned (var_h g w)")
    case True
    then show "v_assigned (computeSubProductsVar (edge_h g) (var_h g w)) \<or>
        I1_var (edge_h g) (computeSubProductsVar (edge_h g) (var_h g w))"
      by (simp add: computeSubProductsVar_keeps)
  next
    case False
    then show "v_assigned (computeSubProductsVar (edge_h g) (var_h g w)) \<or>
        I1_var (edge_h g) (computeSubProductsVar (edge_h g) (var_h g w))"
      by (simp add: computeSubProductsVar_I1)
  qed
  have "var_h (computeSubProductsLoop (w # vs) g) v = var_h (computeSubProductsLoop vs ?g1) v"
    by simp
  also have "\<dots> = (if v \<in> set vs then computeSubProductsVar (edge_h ?g1) (var_h ?g1 v)
      else var_h ?g1 v)"
    by (rule Cons.IH)
  also have "\<dots> = (if v \<in> set (w # vs) then computeSubProductsVar (edge_h g) (var_h g v)
      else var_h g v)"
    using idem by simp
  finally show ?case .
qed

lemma computeSubProducts_I1: "I1 (computeSubProducts g)"
  unfolding I1_def computeSubProducts_def
proof (intro ballI impI)
  fix v
  assume v: "v \<in> set (variables (computeSubProductsLoop (variables g) g))"
    and u: "\<not> v_assigned (var_h (computeSubProductsLoop (variables g) g) v)"
  from v have v': "v \<in> set (variables g)"
    by (simp add: computeSubProductsLoop_frame)
  with u have "\<not> v_assigned (var_h g v)"
    by (simp add: computeSubProductsLoop_var computeSubProductsVar_keeps)
  then have "I1_var (edge_h g) (computeSubProductsVar (edge_h g) (var_h g v))"
    by (rule computeSubProductsVar_I1)
  with v' show "I1_var (edge_h (computeSubProductsLoop (variables g) g))
      (var_h (computeSubProductsLoop (variables g) g) v)"
    by (simp add: computeSubProductsLoop_frame computeSubProductsLoop_var)
qed

lemma computeSubProductsLoop_fixed:
  "(\<forall>v\<in>set vs. v_assigned (var_h g v) \<or> I1_var (edge_h g) (var_h g v)) \<Longrightarrow>
   computeSubProductsLoop vs g = g"
proof (induction vs)
  case Nil
  then show ?case by simp
next
  case (Cons w vs)
  then have "computeSubProductsVar (edge_h g) (var_h g w) = var_h g w"
    by (simp add: computeSubProductsVar_fixed)
  then have "g\<lparr>var_h := (var_h g)(w := computeSubProductsVar (edge_h g) (var_h g w))\<rparr> = g"
    by simp
  with Cons show ?case by simp
qed

lemma I1_fixed: "I1 g \<Longrightarrow> computeSubProducts g = g"
  unfolding computeSubProducts_def by (rule computeSubProductsLoop_fixed) (auto simp add: I1_def)

lemma prod_list_store_other:
  fixes F :: "Edge \<Rightarrow> real"
  shows "e \<notin> set es \<Longrightarrow>
    prod_list (map (\<lambda>x. F ((eh(e := y)) x)) es) = prod_list (map (\<lambda>x. F (eh x)) es)"
  by (induction es) auto

lemma sum_list_store_other:
  fixes G :: "Edge \<Rightarrow> int"
  shows "e \<notin> set es \<Longrightarrow>
    sum_list (map (\<lambda>x. G ((eh(e := y)) x)) es) = sum_list (map (\<lambda>x. G (eh x)) es)"
  by (induction es) auto

lemma prod_list_store:
  fixes F :: "Edge \<Rightarrow> real"
  shows "distinct es \<Longrightarrow> e \<in> set es \<Longrightarrow>
    prod_list (map (\<lambda>x. F ((eh(e := y)) x)) es) * F (eh e)
      = prod_list (map (\<lambda>x. F (eh x)) es) * F y"
proof (induction es)
  case Nil
  then show ?case by simp
next
  case (Cons a es)
  show ?case
  proof (cases "a = e")
    case True
    with Cons.prems have "e \<notin> set es" by simp
    then have "prod_list (map (\<lambda>x. F ((eh(e := y)) x)) es) = prod_list (map (\<lambda>x. F (eh x)) es)"
      by (rule prod_list_store_other)
    then show ?thesis
      using True by (simp add: ac_simps)
  next
    case False
    with Cons.prems have "distinct es" "e \<in> set es" by simp_all
    then have "prod_list (map (\<lambda>x. F ((eh(e := y)) x)) es) * F (eh e)
        = prod_list (map (\<lambda>x. F (eh x)) es) * F y"
      by (rule Cons.IH)
    then show ?thesis
      using False by (simp add: mult.assoc)
  qed
qed

lemma sum_list_store:
  fixes G :: "Edge \<Rightarrow> int"
  shows "distinct es \<Longrightarrow> e \<in> set es \<Longrightarrow>
    sum_list (map (\<lambda>x. G ((eh(e := y)) x)) es) + G (eh e)
      = sum_list (map (\<lambda>x. G (eh x)) es) + G y"
proof (induction es)
  case Nil
  then show ?case by simp
next
  case (Cons a es)
  show ?case
  proof (cases "a = e")
    case True
    with Cons.prems have "e \<notin> set es" by simp
    then have "sum_list (map (\<lambda>x. G ((eh(e := y)) x)) es) = sum_list (map (\<lambda>x. G (eh x)) es)"
      by (rule sum_list_store_other)
    then show ?thesis
      using True by simp
  next
    case False
    with Cons.prems have "distinct es" "e \<in> set es" by simp_all
    then have "sum_list (map (\<lambda>x. G ((eh(e := y)) x)) es) + G (eh e)
        = sum_list (map (\<lambda>x. G (eh x)) es) + G y"
      by (rule Cons.IH)
    then show ?thesis
      using False by simp
  qed
qed

lemma patchSubProducts_keeps:
  "v_assigned (patchSubProducts var edge x) = v_assigned var \<and>
   v_allNeighbourEdges (patchSubProducts var edge x) = v_allNeighbourEdges var"
  by (simp add: patchSubProducts_def)

lemma patchSubProducts_p:
  assumes "e_enabled edge"
  shows "v_p (patchSubProducts var edge x) * edgeFactor True edge
      = v_p var * edgeFactor True (edge\<lparr>e_survey := x\<rparr>)"
proof (cases "e_type edge")
  case True
  show ?thesis
  proof (cases "1 - e_survey edge > ZERO_EPSILON")
    case old: True
    then have "1 - e_survey edge \<noteq> 0"
      using ZERO_EPSILON_pos by linarith
    then show ?thesis
      using assms True old by (simp add: patchSubProducts_def edgeFactor_def)
  next
    case False
    then show ?thesis
      using assms True by (simp add: patchSubProducts_def edgeFactor_def)
  qed
next
  case False
  then show ?thesis
    by (simp add: patchSubProducts_def edgeFactor_def)
qed

lemma patchSubProducts_m:
  assumes "e_enabled edge"
  shows "v_m (patchSubProducts var edge x) * edgeFactor False edge
      = v_m var * edgeFactor False (edge\<lparr>e_survey := x\<rparr>)"
proof (cases "e_type edge")
  case False
  show ?thesis
  proof (cases "1 - e_survey edge > ZERO_EPSILON")
    case old: True
    then have "1 - e_survey edge \<noteq> 0"
      using ZERO_EPSILON_pos by linarith
    then show ?thesis
      using assms False old by (simp add: patchSubProducts_def edgeFactor_def)
  next
    case sat: False
    then show ?thesis
      using assms False by (simp add: patchSubProducts_def edgeFactor_def)
  qed
next
  case True
  then show ?thesis
    by (simp add: patchSubProducts_def edgeFactor_def)
qed

lemma patchSubProducts_pzero:
  assumes "e_enabled edge"
  shows "v_pzero (patchSubProducts var edge x) + edgeSaturated True edge
      = v_pzero var + edgeSaturated True (edge\<lparr>e_survey := x\<rparr>)"
  using assms by (simp add: patchSubProducts_def edgeSaturated_def not_less [symmetric])

lemma patchSubProducts_mzero:
  assumes "e_enabled edge"
  shows "v_mzero (patchSubProducts var edge x) + edgeSaturated False edge
      = v_mzero var + edgeSaturated False (edge\<lparr>e_survey := x\<rparr>)"
  using assms by (simp add: patchSubProducts_def edgeSaturated_def not_less [symmetric])

lemma storeSurvey_frame:
  "variables (storeSurvey g e x) = variables g"
  "clauses (storeSurvey g e x) = clauses g"
  "edges (storeSurvey g e x) = edges g"
  "clause_h (storeSurvey g e x) = clause_h g"
  "edge_h (storeSurvey g e x) = (edge_h g)(e := (edge_h g e)\<lparr>e_survey := x\<rparr>)"
  "var_h (storeSurvey g e x) = (var_h g)(e_variable (edge_h g e) :=
     patchSubProducts (var_h g (e_variable (edge_h g e))) (edge_h g e) x)"
  by (simp_all add: storeSurvey_def Let_def)

lemma storeSurvey_keeps:
  "v_allNeighbourEdges (var_h (storeSurvey g e x) v) = v_allNeighbourEdges (var_h g v)"
  "v_assigned (var_h (storeSurvey g e x) v) = v_assigned (var_h g v)"
  "e_variable (edge_h (storeSurvey g e x) a) = e_variable (edge_h g a)"
  "e_clause (edge_h (storeSurvey g e x) a) = e_clause (edge_h g a)"
  "e_type (edge_h (storeSurvey g e x) a) = e_type (edge_h g a)"
  "e_enabled (edge_h (storeSurvey g e x) a) = e_enabled (edge_h g a)"
  by (simp_all add: storeSurvey_frame patchSubProducts_keeps)

lemma storeSurvey_wellFormed:
  "wellFormed g \<Longrightarrow> wellFormed (storeSurvey g e x)"
  unfolding wellFormed_def
  by (simp only: storeSurvey_keeps storeSurvey_frame(1-4))

lemma storeSurvey_I1_var:
  assumes en: "e_enabled (edge_h g e)"
    and dist: "distinct (v_allNeighbourEdges (var_h g w))"
    and own: "\<forall>a\<in>set (v_allNeighbourEdges (var_h g w)). e_variable (edge_h g a) = w"
    and listed: "e_variable (edge_h g e) = w \<Longrightarrow> e \<in> set (v_allNeighbourEdges (var_h g w))"
    and inv: "I1_var (edge_h g) (var_h g w)"
  shows "I1_var (edge_h (storeSurvey g e x)) (var_h (storeSurvey g e x) w)"
proof (cases "e_variable (edge_h g e) = w")
  case False
  let ?es = "v_allNeighbourEdges (var_h g w)"
  let ?eh' = "(edge_h g)(e := (edge_h g e)\<lparr>e_survey := x\<rparr>)"
  have ne: "e \<notin> set ?es"
    using False own by blast
  have same: "var_h (storeSurvey g e x) w = var_h g w"
    using False by (simp add: storeSurvey_frame)
  have P: "prod_list (map (\<lambda>a. edgeFactor True (?eh' a)) ?es)
      = prod_list (map (\<lambda>a. edgeFactor True (edge_h g a)) ?es)"
    using ne by (rule prod_list_store_other)
  have M: "prod_list (map (\<lambda>a. edgeFactor False (?eh' a)) ?es)
      = prod_list (map (\<lambda>a. edgeFactor False (edge_h g a)) ?es)"
    using ne by (rule prod_list_store_other)
  have PZ: "sum_list (map (\<lambda>a. edgeSaturated True (?eh' a)) ?es)
      = sum_list (map (\<lambda>a. edgeSaturated True (edge_h g a)) ?es)"
    using ne by (rule sum_list_store_other)
  have MZ: "sum_list (map (\<lambda>a. edgeSaturated False (?eh' a)) ?es)
      = sum_list (map (\<lambda>a. edgeSaturated False (edge_h g a)) ?es)"
    using ne by (rule sum_list_store_other)
  show ?thesis
    unfolding I1_var_factors same storeSurvey_frame(5) P M PZ MZ
    using inv unfolding I1_var_factors .
next
  case True
  let ?es = "v_allNeighbourEdges (var_h g w)"
  let ?edge = "edge_h g e"
  let ?edge' = "(edge_h g e)\<lparr>e_survey := x\<rparr>"
  let ?eh' = "(edge_h g)(e := ?edge')"
  let ?var' = "patchSubProducts (var_h g w) ?edge x"
  have mem: "e \<in> set ?es"
    using True by (rule listed)
  have var': "var_h (storeSurvey g e x) w = ?var'"
    using True by (simp add: storeSurvey_frame)
  have es': "v_allNeighbourEdges ?var' = ?es"
    by (simp add: patchSubProducts_keeps)
  from inv have p: "v_p (var_h g w) = prod_list (map (\<lambda>a. edgeFactor True (edge_h g a)) ?es)"
    and pz: "v_pzero (var_h g w) = sum_list (map (\<lambda>a. edgeSaturated True (edge_h g a)) ?es)"
    and m: "v_m (var_h g w) = prod_list (map (\<lambda>a. edgeFactor False (edge_h g a)) ?es)"
    and mz: "v_mzero (var_h g w) = sum_list (map (\<lambda>a. edgeSaturated False (edge_h g a)) ?es)"
    unfolding I1_var_factors by simp_all
  have "v_p ?var' * edgeFactor True ?edge
      = prod_list (map (\<lambda>a. edgeFactor True (?eh' a)) ?es) * edgeFactor True ?edge"
    unfolding patchSubProducts_p [OF en] p
    using prod_list_store [OF dist mem, of "edgeFactor True" "edge_h g" ?edge'] by simp
  then have P: "v_p ?var' = prod_list (map (\<lambda>a. edgeFactor True (?eh' a)) ?es)"
    using edgeFactor_pos [of True ?edge] by simp
  have "v_m ?var' * edgeFactor False ?edge
      = prod_list (map (\<lambda>a. edgeFactor False (?eh' a)) ?es) * edgeFactor False ?edge"
    unfolding patchSubProducts_m [OF en] m
    using prod_list_store [OF dist mem, of "edgeFactor False" "edge_h g" ?edge'] by simp
  then have M: "v_m ?var' = prod_list (map (\<lambda>a. edgeFactor False (?eh' a)) ?es)"
    using edgeFactor_pos [of False ?edge] by simp
  have "v_pzero ?var' + edgeSaturated True ?edge
      = sum_list (map (\<lambda>a. edgeSaturated True (?eh' a)) ?es) + edgeSaturated True ?edge"
    unfolding patchSubProducts_pzero [OF en] pz
    using sum_list_store [OF dist mem, of "edgeSaturated True" "edge_h g" ?edge'] by simp
  then have PZ: "v_pzero ?var' = sum_list (map (\<lambda>a. edgeSaturated True (?eh' a)) ?es)"
    by simp
  have "v_mzero ?var' + edgeSaturated False ?edge
      = sum_list (map (\<lambda>a. edgeSaturated False (?eh' a)) ?es) + edgeSaturated False ?edge"
    unfolding patchSubProducts_mzero [OF en] mz
    using sum_list_store [OF dist mem, of "edgeSaturated False" "edge_h g" ?edge'] by simp
  then have MZ: "v_mzero ?var' = sum_list (map (\<lambda>a. edgeSaturated False (?eh' a)) ?es)"
    by simp
  show ?thesis
    unfolding I1_var_factors var' es' storeSurvey_frame(5)
    using P M PZ MZ by (intro conjI)
qed

lemma storeSurvey_I1:
  assumes wf: "wellFormed g" and inv: "I1 g"
    and e: "e \<in> set (edges g)" and en: "e_enabled (edge_h g e)"
  shows "I1 (storeSurvey g e x)"
  unfolding I1_def
proof (intro ballI impI)
  fix w
  assume "w \<in> set (variables (storeSurvey g e x))"
    and "\<not> v_assigned (var_h (storeSurvey g e x) w)"
  then have w: "w \<in> set (variables g)" and u: "\<not> v_assigned (var_h g w)"
    by (simp_all add: storeSurvey_frame(1) storeSurvey_keeps)
  from wf w have dist: "distinct (v_allNeighbourEdges (var_h g w))"
    and own: "\<forall>a\<in>set (v_allNeighbourEdges (var_h g w)). e_variable (edge_h g a) = w"
    unfolding wellFormed_def by blast+
  from wf e have "e \<in> set (v_allNeighbourEdges (var_h g (e_variable (edge_h g e))))"
    unfolding wellFormed_def by blast
  then have listed: "e_variable (edge_h g e) = w \<Longrightarrow> e \<in> set (v_allNeighbourEdges (var_h g w))"
    by simp
  from inv w u have "I1_var (edge_h g) (var_h g w)"
    unfolding I1_def by blast
  with en dist own listed show "I1_var (edge_h (storeSurvey g e x)) (var_h (storeSurvey g e x) w)"
    by (rule storeSurvey_I1_var)
qed

lemma updateLoop_invariant:
  assumes "wellFormed g" "I1 g" "set es \<subseteq> set (edges g)"
    and "updateLoop zeros allSubSurveys subSurveys es i maxDiff g = Inr (d, g')"
  shows "wellFormed g' \<and> I1 g'"
  using assms
proof (induction es arbitrary: i maxDiff g)
  case Nil
  then show ?case by simp
next
  case (Cons e es)
  show ?case
  proof (cases "e_enabled (edge_h g e)")
    case False
    with Cons.prems have "updateLoop zeros allSubSurveys subSurveys es i maxDiff g = Inr (d, g')"
      by simp
    with Cons.prems(1-3) show ?thesis
      by (intro Cons.IH [of g i maxDiff]) simp_all
  next
    case True
    with Cons.prems(4) obtain x where x: "newSurveyOf zeros allSubSurveys subSurveys i = Inr x"
      by (cases "newSurveyOf zeros allSubSurveys subSurveys i") auto
    let ?g1 = "storeSurvey g e x"
    let ?m1 = "if \<bar>e_survey (edge_h g e) - x\<bar> > maxDiff
      then \<bar>e_survey (edge_h g e) - x\<bar> else maxDiff"
    from Cons.prems(4) True x
    have rec: "updateLoop zeros allSubSurveys subSurveys es (i + 1) ?m1 ?g1 = Inr (d, g')"
      by (simp add: Let_def)
    have e: "e \<in> set (edges g)"
      using Cons.prems(3) by simp
    have "wellFormed ?g1"
      using Cons.prems(1) by (rule storeSurvey_wellFormed)
    moreover have "I1 ?g1"
      using Cons.prems(1,2) e True by (rule storeSurvey_I1)
    moreover have "set es \<subseteq> set (edges ?g1)"
      using Cons.prems(3) by (simp add: storeSurvey_frame)
    ultimately show ?thesis
      using rec by (rule Cons.IH)
  qed
qed

lemma updateSurveys_invariant:
  assumes "wellFormed g" and "c \<in> set (clauses g)" and "I1 g"
    and "updateSurveys g c = Inr (d, g')"
  shows "wellFormed g' \<and> I1 g'"
proof -
  let ?es = "c_allNeighbourEdges (clause_h g c)"
  from assms(4) obtain zeros allSubSurveys subSurveys
    where "updateLoop zeros allSubSurveys subSurveys ?es 0 0 g = Inr (d, g')"
    unfolding updateSurveys_def Let_def by (auto split: sum.splits)
  moreover have "set ?es \<subseteq> set (edges g)"
    using assms(1,2) unfolding wellFormed_def by blast
  ultimately show ?thesis
    using assms(1,3) by (intro updateLoop_invariant)
qed

text \<open>
  The invariant therefore holds after every clause of a sweep.
\<close>

lemma updateLoop_clauses:
  "updateLoop zeros allSubSurveys subSurveys es i maxDiff g = Inr (d, g') \<Longrightarrow>
   clauses g' = clauses g"
proof (induction es arbitrary: i maxDiff g)
  case Nil
  then show ?case by simp
next
  case (Cons e es)
  show ?case
  proof (cases "e_enabled (edge_h g e)")
    case False
    with Cons.prems have "updateLoop zeros allSubSurveys subSurveys es i maxDiff g = Inr (d, g')"
      by simp
    then show ?thesis by (rule Cons.IH)
  next
    case True
    with Cons.prems obtain x where x: "newSurveyOf zeros allSubSurveys subSurveys i = Inr x"
      by (cases "newSurveyOf zeros allSubSurveys subSurveys i") auto
    let ?m1 = "if \<bar>e_survey (edge_h g e) - x\<bar> > maxDiff
      then \<bar>e_survey (edge_h g e) - x\<bar> else maxDiff"
    from Cons.prems True x
    have "updateLoop zeros allSubSurveys subSurveys es (i + 1) ?m1 (storeSurvey g e x) = Inr (d, g')"
      by (simp add: Let_def)
    then have "clauses g' = clauses (storeSurvey g e x)"
      by (rule Cons.IH)
    then show ?thesis
      by (simp add: storeSurvey_frame)
  qed
qed

lemma updateSurveys_clauses:
  "updateSurveys g c = Inr (d, g') \<Longrightarrow> clauses g' = clauses g"
  unfolding updateSurveys_def Let_def
  by (auto split: sum.splits dest: updateLoop_clauses)

lemma sweepClauses_invariant:
  assumes "wellFormed g" and "I1 g" and "set cs \<subseteq> set (clauses g)"
    and "sweepClauses cs d g = Inr (d', g')"
  shows "wellFormed g' \<and> I1 g'"
  using assms
proof (induction cs arbitrary: d g)
  case Nil
  then show ?case by simp
next
  case (Cons c cs)
  from Cons.prems(4) obtain dc g1 where u: "updateSurveys g c = Inr (dc, g1)"
    by (cases "updateSurveys g c") auto
  with Cons.prems(4) have rec: "sweepClauses cs (if dc > d then dc else d) g1 = Inr (d', g')"
    by simp
  have c: "c \<in> set (clauses g)"
    using Cons.prems(3) by simp
  from updateSurveys_invariant [OF Cons.prems(1) c Cons.prems(2) u]
  have "wellFormed g1" "I1 g1"
    by blast+
  moreover have "set cs \<subseteq> set (clauses g1)"
    using Cons.prems(3) updateSurveys_clauses [OF u] by simp
  ultimately show ?case
    using rec by (rule Cons.IH)
qed

text \<open>
  Claim C3.  On a well-formed graph in which invariant I1 holds, a call of
  \<^verbatim>\<open>updateSurveys\<close> on a clause of the graph that returns leaves a graph in which
  I1 holds again for every unassigned variable: \<open>p\<close> is the product of \<open>1 - survey\<close>
  over the variable's enabled positive edges with \<open>1 - survey > ZERO_EPSILON\<close>,
  \<open>pzero\<close> the number of its enabled positive edges with
  \<open>1 - survey \<le> ZERO_EPSILON\<close>, and the same for \<open>m\<close> and \<open>mzero\<close>; so a
  recomputation from scratch by \<^verbatim>\<open>computeSubProducts\<close> changes nothing.  The driver
  establishes I1 by \<^verbatim>\<open>computeSubProducts\<close> before its first sweep
  (\<open>computeSubProducts_I1\<close>).
\<close>

theorem updateSurveys_preserves_I1:
  assumes "wellFormed g" and "c \<in> set (clauses g)" and "I1 g"
    and "updateSurveys g c = Inr (d, g')"
  shows "wellFormed g' \<and> I1 g' \<and> computeSubProducts g' = g'"
proof -
  have "wellFormed g' \<and> I1 g'"
    using assms by (rule updateSurveys_invariant)
  then show ?thesis
    by (simp add: I1_fixed)
qed

text \<open>
  Witness for C3: the update of the unit clause \<open>(x0)\<close> in \<open>gPairCache\<close> moves the
  survey of edge 0 from 199/200 to 1, so the edge becomes saturated: \<open>p\<close> goes from
  1/200 to 1 and \<open>pzero\<close> from 0 to 1.
\<close>

theorem updateSurveys_preserves_I1_witness:
  "wellFormed gPairCache \<and> 0 \<in> set (clauses gPairCache) \<and> I1 gPairCache \<and>
   updateSurveys gPairCache 0 = Inr (1 / 200, gPairUpdated) \<and>
   wellFormed gPairUpdated \<and> I1 gPairUpdated \<and> computeSubProducts gPairUpdated = gPairUpdated \<and>
   surveysOf gPairUpdated = [1, 199 / 200] \<and>
   cacheOf gPairUpdated = [(1, 1, 1 / 200, 0)]"
proof -
  have wf: "wellFormed gPairCache"
    by code_simp
  have c: "0 \<in> set (clauses gPairCache)"
    by code_simp
  have i: "I1 gPairCache"
    unfolding gPairCache_def by (rule computeSubProducts_I1)
  have "resultOf (updateSurveys gPairCache 0) = Inr (1 / 200)"
    by code_simp
  then have u: "updateSurveys gPairCache 0 = Inr (1 / 200, gPairUpdated)"
    unfolding gPairUpdated_def by (rule resultOf_Inr_pair)
  note t = updateSurveys_preserves_I1 [OF wf c i u]
  have s: "surveysOf gPairUpdated = [1, 199 / 200]"
    by code_simp
  have k: "cacheOf gPairUpdated = [(1, 1, 1 / 200, 0)]"
    by code_simp
  from wf c i u t s k show ?thesis
    by (intro conjI) blast+
qed

section \<open>The simplifier: assignment and unit propagation\<close>

lemma assignVariable_opposite:
  "v_assigned (var_h g v) \<and> v_value (var_h g v) \<noteq> b \<Longrightarrow>
   assignVariable (Suc n) g v b = Some (Failed (OppositeValue v), g)"
  unfolding assignVariable.simps by (rule if_P)

lemma assignVariable_fresh:
  "\<not> (v_assigned (var_h g v) \<and> v_value (var_h g v) \<noteq> b) \<Longrightarrow>
   assignVariable (Suc n) g v b
     = cleanEdges n (AssignValue g v b) v (v_allNeighbourEdges (var_h g v))"
  unfolding assignVariable.simps by (rule if_not_P)

lemma assignVariable_cleanGraph:
  "assignVariable (Suc n) g v b =
     (if v_assigned (var_h g v) \<and> v_value (var_h g v) \<noteq> b
      then Some (Failed (OppositeValue v), g)
      else cleanGraph n (AssignValue g v b) v)"
  by (simp add: cleanGraph_def AssignValue_def)

lemma cleanEdges_disabled:
  "\<not> e_enabled (edge_h g e) \<Longrightarrow> cleanEdges n g v (e # es) = cleanEdges n g v es"
  unfolding cleanEdges.simps by (rule if_not_P)

lemma cleanEdges_satisfied:
  "e_enabled (edge_h g e) \<Longrightarrow> e_type (edge_h g e) = v_value (var_h g v) \<Longrightarrow>
   cleanEdges n g v (e # es) = cleanEdges n (Clause_Dissable g (e_clause (edge_h g e))) v es"
  by simp

lemma cleanEdges_falsified:
  "e_enabled (edge_h g e) \<Longrightarrow> e_type (edge_h g e) \<noteq> v_value (var_h g v) \<Longrightarrow>
   cleanEdges n g v (e # es)
     = (case unitPropagation n (Edge_Dissable g e) (e_clause (edge_h g e)) of
          None \<Rightarrow> None
        | Some (Failed msg, g') \<Rightarrow> Some (Failed msg, g')
        | Some (Done, g') \<Rightarrow> cleanEdges n g' v es)"
  unfolding cleanEdges.simps by (simp only: if_True if_False)

lemma evolves_refl: "evolves g g"
  by (simp add: evolves_def)

lemma evolves_trans: "evolves g g1 \<Longrightarrow> evolves g1 g2 \<Longrightarrow> evolves g g2"
  unfolding evolves_def by (intro conjI allI impI; metis)

lemma evolves_AssignValue:
  "\<not> (v_assigned (var_h g v) \<and> v_value (var_h g v) \<noteq> b) \<Longrightarrow> evolves g (AssignValue g v b)"
  by (auto simp add: evolves_def AssignValue_def)

lemma evolves_Clause_Dissable: "evolves g (Clause_Dissable g c)"
  by (simp add: evolves_def Clause_Dissable_def)

lemma evolves_Edge_Dissable: "evolves g (Edge_Dissable g e)"
  by (simp add: evolves_def Edge_Dissable_def)

lemma simplifier_evolves:
  "assignVariable n g v b = Some (r, g') \<Longrightarrow> evolves g g'"
  "cleanEdges n g v es = Some (r, g') \<Longrightarrow> evolves g g'"
  "unitPropagation n g c = Some (r, g') \<Longrightarrow> evolves g g'"
proof (induction n g v b and n g v es and n g c arbitrary: r g' and r g' and r g'
    rule: assignVariable_cleanEdges_unitPropagation.induct)
  case (1 g v b)
  then show ?case by simp
next
  case (2 n g v b)
  show ?case
  proof (cases "v_assigned (var_h g v) \<and> v_value (var_h g v) \<noteq> b")
    case True
    show ?thesis
      using "2.prems" unfolding assignVariable_opposite [OF True] by (simp add: evolves_refl)
  next
    case False
    have "cleanEdges n (AssignValue g v b) v (v_allNeighbourEdges (var_h g v)) = Some (r, g')"
      using "2.prems" unfolding assignVariable_fresh [OF False] .
    with False have "evolves (AssignValue g v b) g'"
      by (rule "2.IH")
    with evolves_AssignValue [OF False] show ?thesis
      by (rule evolves_trans)
  qed
next
  case (3 n g v)
  then show ?case by (simp add: evolves_refl)
next
  case (4 n g v e es)
  show ?case
  proof (cases "e_enabled (edge_h g e)")
    case False
    have "cleanEdges n g v es = Some (r, g')"
      using "4.prems" unfolding cleanEdges_disabled [OF False] .
    with False show ?thesis by (rule "4.IH"(4))
  next
    case en: True
    show ?thesis
    proof (cases "e_type (edge_h g e) = v_value (var_h g v)")
      case True
      have "cleanEdges n (Clause_Dissable g (e_clause (edge_h g e))) v es = Some (r, g')"
        using "4.prems" unfolding cleanEdges_satisfied [OF en True] .
      with en True have "evolves (Clause_Dissable g (e_clause (edge_h g e))) g'"
        by (rule "4.IH"(1))
      with evolves_Clause_Dissable show ?thesis
        by (rule evolves_trans)
    next
      case False
      note unfold = cleanEdges_falsified [OF en False]
      from "4.prems" obtain r1 g1
        where up: "unitPropagation n (Edge_Dissable g e) (e_clause (edge_h g e)) = Some (r1, g1)"
        unfolding unfold by (cases "unitPropagation n (Edge_Dissable g e) (e_clause (edge_h g e))") auto
      from en False up have e1: "evolves (Edge_Dissable g e) g1"
        by (rule "4.IH"(2))
      have e0: "evolves g g1"
        using evolves_Edge_Dissable e1 by (rule evolves_trans)
      show ?thesis
      proof (cases r1)
        case Done
        with up "4.prems" have "cleanEdges n g1 v es = Some (r, g')"
          unfolding unfold by simp
        with en False up Done have "evolves g1 g'"
          by (intro "4.IH"(3)) simp_all
        with e0 show ?thesis by (rule evolves_trans)
      next
        case (Failed msg)
        with up "4.prems" have "g' = g1"
          unfolding unfold by simp
        with e0 show ?thesis by simp
      qed
    qed
  qed
next
  case (5 n g c)
  show ?case
  proof (cases "GetEnabledEdges g c")
    case Nil
    with "5.prems" show ?thesis by (simp add: evolves_refl)
  next
    case (Cons e es)
    show ?thesis
    proof (cases es)
      case Nil
      with Cons "5.prems"
      have "assignVariable n g (e_variable (edge_h g e)) (e_type (edge_h g e)) = Some (r, g')"
        by simp
      with Cons Nil show ?thesis
        by (intro "5.IH") simp_all
    next
      case (Cons a as)
      with \<open>GetEnabledEdges g c = e # es\<close> "5.prems" show ?thesis
        by (simp add: evolves_refl)
    qed
  qed
qed

lemma cleanEdges_cleaned:
  assumes "v_assigned (var_h g v)" and "cleanEdges n g v es = Some (Done, g')"
  shows "\<forall>e\<in>set es. e_enabled (edge_h g' e) \<longrightarrow>
           e_type (edge_h g' e) = v_value (var_h g' v) \<and>
           \<not> c_enabled (clause_h g' (e_clause (edge_h g' e)))"
  using assms
proof (induction es arbitrary: g)
  case Nil
  then show ?case by simp
next
  case (Cons e es)
  show ?case
  proof (cases "e_enabled (edge_h g e)")
    case False
    have rec: "cleanEdges n g v es = Some (Done, g')"
      using Cons.prems(2) unfolding cleanEdges_disabled [OF False] .
    then have "evolves g g'"
      by (rule simplifier_evolves)
    with False have "\<not> e_enabled (edge_h g' e)"
      unfolding evolves_def by blast
    with Cons.IH [OF Cons.prems(1) rec] show ?thesis
      by simp
  next
    case en: True
    show ?thesis
    proof (cases "e_type (edge_h g e) = v_value (var_h g v)")
      case True
      let ?g1 = "Clause_Dissable g (e_clause (edge_h g e))"
      have rec: "cleanEdges n ?g1 v es = Some (Done, g')"
        using Cons.prems(2) unfolding cleanEdges_satisfied [OF en True] .
      have a1: "v_assigned (var_h ?g1 v)"
        using Cons.prems(1) by (simp add: Clause_Dissable_def)
      have ev: "evolves ?g1 g'"
        using rec by (rule simplifier_evolves)
      have "e_type (edge_h g' e) = e_type (edge_h ?g1 e)"
        "e_clause (edge_h g' e) = e_clause (edge_h ?g1 e)"
        "v_value (var_h g' v) = v_value (var_h ?g1 v)"
        "c_enabled (clause_h g' (e_clause (edge_h ?g1 e)))
           \<longrightarrow> c_enabled (clause_h ?g1 (e_clause (edge_h ?g1 e)))"
        using ev a1 unfolding evolves_def by blast+
      then have "e_type (edge_h g' e) = v_value (var_h g' v) \<and>
          \<not> c_enabled (clause_h g' (e_clause (edge_h g' e)))"
        using True by (simp add: Clause_Dissable_def)
      with Cons.IH [OF a1 rec] show ?thesis
        by simp
    next
      case False
      note unfold = cleanEdges_falsified [OF en False]
      from Cons.prems(2) obtain r1 g1
        where up: "unitPropagation n (Edge_Dissable g e) (e_clause (edge_h g e)) = Some (r1, g1)"
        unfolding unfold
        by (cases "unitPropagation n (Edge_Dissable g e) (e_clause (edge_h g e))") auto
      have r1: "r1 = Done"
        using Cons.prems(2) up unfolding unfold by (cases r1) simp_all
      have rec: "cleanEdges n g1 v es = Some (Done, g')"
        using Cons.prems(2) up r1 unfolding unfold by simp
      have e1: "evolves (Edge_Dissable g e) g1"
        using up by (rule simplifier_evolves)
      have e2: "evolves g1 g'"
        using rec by (rule simplifier_evolves)
      have "\<not> e_enabled (edge_h (Edge_Dissable g e) e)"
        by (simp add: Edge_Dissable_def)
      with e1 have "\<not> e_enabled (edge_h g1 e)"
        unfolding evolves_def by blast
      with e2 have dis: "\<not> e_enabled (edge_h g' e)"
        unfolding evolves_def by blast
      have "v_assigned (var_h (Edge_Dissable g e) v)"
        using Cons.prems(1) by (simp add: Edge_Dissable_def)
      with e1 have a1: "v_assigned (var_h g1 v)"
        unfolding evolves_def by blast
      from Cons.IH [OF a1 rec] dis show ?thesis
        by simp
    qed
  qed
qed

lemma assignVariable_Done:
  assumes "assignVariable n g v b = Some (Done, g')"
  shows "v_assigned (var_h g' v) \<and> v_value (var_h g' v) = b \<and>
         (\<forall>e\<in>set (v_allNeighbourEdges (var_h g' v)).
            e_enabled (edge_h g' e) \<and> e_type (edge_h g' e) = b \<longrightarrow>
            \<not> c_enabled (clause_h g' (e_clause (edge_h g' e))))"
proof (cases n)
  case 0
  with assms show ?thesis by simp
next
  case (Suc m)
  have fresh: "\<not> (v_assigned (var_h g v) \<and> v_value (var_h g v) \<noteq> b)"
  proof
    assume "v_assigned (var_h g v) \<and> v_value (var_h g v) \<noteq> b"
    from assms [unfolded Suc assignVariable_opposite [OF this]] show False
      by simp
  qed
  let ?g0 = "AssignValue g v b"
  have rec: "cleanEdges m ?g0 v (v_allNeighbourEdges (var_h g v)) = Some (Done, g')"
    using assms unfolding Suc assignVariable_fresh [OF fresh] .
  have a0: "v_assigned (var_h ?g0 v)" and b0: "v_value (var_h ?g0 v) = b"
    and l0: "v_allNeighbourEdges (var_h ?g0 v) = v_allNeighbourEdges (var_h g v)"
    by (simp_all add: AssignValue_def)
  have ev: "evolves ?g0 g'"
    using rec by (rule simplifier_evolves)
  have a: "v_assigned (var_h g' v)" and b: "v_value (var_h g' v) = b"
    and l: "v_allNeighbourEdges (var_h g' v) = v_allNeighbourEdges (var_h g v)"
    using ev a0 b0 l0 unfolding evolves_def by metis+
  from cleanEdges_cleaned [OF a0 rec] a b show ?thesis
    unfolding l by blast
qed

lemma simplifier_Failed:
  "assignVariable n g v b = Some (Failed msg, g') \<Longrightarrow>
     (msg = OppositeValue v \<and> g' = g \<and> v_assigned (var_h g v) \<and> v_value (var_h g v) \<noteq> b) \<or>
     (\<exists>w. msg = OppositeValue w \<and> v_assigned (var_h g' w) \<and>
        (\<exists>c e. GetEnabledEdges g' c = [e] \<and> e_variable (edge_h g' e) = w \<and>
               e_type (edge_h g' e) \<noteq> v_value (var_h g' w))) \<or>
     (\<exists>c. msg = EmptyClause c \<and> GetEnabledEdges g' c = [])"
  "cleanEdges n g v es = Some (Failed msg, g') \<Longrightarrow>
     (\<exists>w. msg = OppositeValue w \<and> v_assigned (var_h g' w) \<and>
        (\<exists>c e. GetEnabledEdges g' c = [e] \<and> e_variable (edge_h g' e) = w \<and>
               e_type (edge_h g' e) \<noteq> v_value (var_h g' w))) \<or>
     (\<exists>c. msg = EmptyClause c \<and> GetEnabledEdges g' c = [])"
  "unitPropagation n g c = Some (Failed msg, g') \<Longrightarrow>
     (\<exists>w. msg = OppositeValue w \<and> v_assigned (var_h g' w) \<and>
        (\<exists>c e. GetEnabledEdges g' c = [e] \<and> e_variable (edge_h g' e) = w \<and>
               e_type (edge_h g' e) \<noteq> v_value (var_h g' w))) \<or>
     (\<exists>c. msg = EmptyClause c \<and> GetEnabledEdges g' c = [])"
proof (induction n g v b and n g v es and n g c arbitrary: msg g' and msg g' and msg g'
    rule: assignVariable_cleanEdges_unitPropagation.induct)
  case (1 g v b)
  then show ?case by simp
next
  case (2 n g v b)
  show ?case
  proof (cases "v_assigned (var_h g v) \<and> v_value (var_h g v) \<noteq> b")
    case True
    from "2.prems" [unfolded assignVariable_opposite [OF True]] True show ?thesis
      by simp
  next
    case False
    have "cleanEdges n (AssignValue g v b) v (v_allNeighbourEdges (var_h g v))
        = Some (Failed msg, g')"
      using "2.prems" unfolding assignVariable_fresh [OF False] .
    with False show ?thesis
      by (intro disjI2 "2.IH")
  qed
next
  case (3 n g v)
  then show ?case by simp
next
  case (4 n g v e es)
  show ?case
  proof (cases "e_enabled (edge_h g e)")
    case False
    have "cleanEdges n g v es = Some (Failed msg, g')"
      using "4.prems" unfolding cleanEdges_disabled [OF False] .
    with False show ?thesis by (rule "4.IH"(4))
  next
    case en: True
    show ?thesis
    proof (cases "e_type (edge_h g e) = v_value (var_h g v)")
      case True
      have "cleanEdges n (Clause_Dissable g (e_clause (edge_h g e))) v es = Some (Failed msg, g')"
        using "4.prems" unfolding cleanEdges_satisfied [OF en True] .
      with en True show ?thesis by (rule "4.IH"(1))
    next
      case False
      note unfold = cleanEdges_falsified [OF en False]
      from "4.prems" obtain r1 g1
        where up: "unitPropagation n (Edge_Dissable g e) (e_clause (edge_h g e)) = Some (r1, g1)"
        unfolding unfold
        by (cases "unitPropagation n (Edge_Dissable g e) (e_clause (edge_h g e))") auto
      show ?thesis
      proof (cases r1)
        case Done
        with up "4.prems" have "cleanEdges n g1 v es = Some (Failed msg, g')"
          unfolding unfold by simp
        with en False up Done show ?thesis
          by (intro "4.IH"(3)) simp_all
      next
        case (Failed msg1)
        with up "4.prems" have "msg = msg1" "g' = g1"
          unfolding unfold by simp_all
        with up Failed
        have "unitPropagation n (Edge_Dissable g e) (e_clause (edge_h g e)) = Some (Failed msg, g')"
          by simp
        with en False show ?thesis by (rule "4.IH"(2))
      qed
    qed
  qed
next
  case (5 n g c)
  show ?case
  proof (cases "GetEnabledEdges g c")
    case Nil
    with "5.prems" have "msg = EmptyClause c \<and> GetEnabledEdges g' c = []"
      by auto
    then show ?thesis by blast
  next
    case (Cons e es)
    show ?thesis
    proof (cases es)
      case Nil
      let ?w = "e_variable (edge_h g e)" and ?b = "e_type (edge_h g e)"
      from Cons Nil "5.prems"
      have call: "assignVariable n g ?w ?b = Some (Failed msg, g')"
        by simp
      from Cons Nil have one: "GetEnabledEdges g c = [e]"
        by simp
      from "5.IH" [OF one refl call]
      show ?thesis
      proof (elim disjE)
        assume "msg = OppositeValue ?w \<and> g' = g \<and> v_assigned (var_h g ?w) \<and>
            v_value (var_h g ?w) \<noteq> ?b"
        with one have "msg = OppositeValue ?w \<and> v_assigned (var_h g' ?w) \<and>
            (\<exists>c e. GetEnabledEdges g' c = [e] \<and> e_variable (edge_h g' e) = ?w \<and>
               e_type (edge_h g' e) \<noteq> v_value (var_h g' ?w))"
          by auto
        then show ?thesis by blast
      qed blast+
    next
      case (Cons a as)
      with \<open>GetEnabledEdges g c = e # es\<close> "5.prems" show ?thesis
        by simp
    qed
  qed
qed

lemma wellFormed_evolves:
  assumes "evolves g g'" and "wellFormed g"
  shows "wellFormed g'"
proof -
  from assms(1) have eq: "variables g' = variables g" "clauses g' = clauses g"
    "edges g' = edges g"
    "\<And>v. v_allNeighbourEdges (var_h g' v) = v_allNeighbourEdges (var_h g v)"
    "\<And>c. c_allNeighbourEdges (clause_h g' c) = c_allNeighbourEdges (clause_h g c)"
    "\<And>e. e_variable (edge_h g' e) = e_variable (edge_h g e)"
    "\<And>e. e_clause (edge_h g' e) = e_clause (edge_h g e)"
    unfolding evolves_def by blast+
  from assms(2) show ?thesis
    unfolding wellFormed_def eq .
qed

lemma length_filter_mono:
  "(\<forall>x\<in>set xs. Q x \<longrightarrow> P x) \<Longrightarrow> length (filter Q xs) \<le> length (filter P xs)"
  by (induction xs) auto

lemma length_filter_strict:
  "(\<forall>x\<in>set xs. Q x \<longrightarrow> P x) \<Longrightarrow> a \<in> set xs \<Longrightarrow> P a \<Longrightarrow> \<not> Q a \<Longrightarrow>
   length (filter Q xs) < length (filter P xs)"
proof (induction xs)
  case Nil
  then show ?case by simp
next
  case (Cons x xs)
  have mono: "length (filter Q xs) \<le> length (filter P xs)"
    using Cons.prems(1) by (intro length_filter_mono) simp
  show ?case
  proof (cases "x = a")
    case True
    with Cons.prems mono show ?thesis by simp
  next
    case False
    with Cons.prems have "length (filter Q xs) < length (filter P xs)"
      by (intro Cons.IH) simp_all
    with Cons.prems(1) show ?thesis by auto
  qed
qed

lemma enabledCount_evolves: "evolves g g' \<Longrightarrow> enabledCount g' \<le> enabledCount g"
proof -
  assume ev: "evolves g g'"
  then have "edges g' = edges g"
    and "\<forall>e\<in>set (edges g). e_enabled (edge_h g' e) \<longrightarrow> e_enabled (edge_h g e)"
    unfolding evolves_def by blast+
  then show ?thesis
    unfolding enabledCount_def by (simp add: length_filter_mono)
qed

lemma enabledCount_Edge_Dissable:
  assumes "e \<in> set (edges g)" and "e_enabled (edge_h g e)"
  shows "enabledCount (Edge_Dissable g e) < enabledCount g"
proof -
  have "length (filter (\<lambda>a. e_enabled (edge_h (Edge_Dissable g e) a)) (edges g))
      < length (filter (\<lambda>a. e_enabled (edge_h g a)) (edges g))"
    using _ assms by (rule length_filter_strict) (simp_all add: Edge_Dissable_def)
  then show ?thesis
    unfolding enabledCount_def by (simp add: Edge_Dissable_def)
qed

lemma simplifier_returns:
  "wellFormed g \<Longrightarrow> v \<in> set (variables g) \<Longrightarrow> enabledCount g < n \<Longrightarrow>
     \<exists>res. assignVariable n g v b = Some res"
  "wellFormed g \<Longrightarrow> set es \<subseteq> set (edges g) \<Longrightarrow> enabledCount g \<le> n \<Longrightarrow>
     \<exists>res. cleanEdges n g v es = Some res"
  "wellFormed g \<Longrightarrow> c \<in> set (clauses g) \<Longrightarrow> enabledCount g < n \<Longrightarrow>
     \<exists>res. unitPropagation n g c = Some res"
proof (induction n g v b and n g v es and n g c
    rule: assignVariable_cleanEdges_unitPropagation.induct)
  case (1 g v b)
  then show ?case by simp
next
  case (2 n g v b)
  show ?case
  proof (cases "v_assigned (var_h g v) \<and> v_value (var_h g v) \<noteq> b")
    case True
    then show ?thesis
      unfolding assignVariable_opposite [OF True] by blast
  next
    case False
    let ?g0 = "AssignValue g v b"
    have ev: "evolves g ?g0"
      using False by (rule evolves_AssignValue)
    have wf0: "wellFormed ?g0"
      using ev "2.prems"(1) by (rule wellFormed_evolves)
    have "set (v_allNeighbourEdges (var_h g v)) \<subseteq> set (edges g)"
      using "2.prems"(1,2) unfolding wellFormed_def by blast
    then have sub: "set (v_allNeighbourEdges (var_h g v)) \<subseteq> set (edges ?g0)"
      by (simp add: AssignValue_def)
    have "enabledCount ?g0 \<le> enabledCount g"
      using ev by (rule enabledCount_evolves)
    with "2.prems"(3) have cnt: "enabledCount ?g0 \<le> n"
      by simp
    from "2.IH" [OF False wf0 sub cnt] show ?thesis
      unfolding assignVariable_fresh [OF False] .
  qed
next
  case (3 n g v)
  then show ?case by simp
next
  case (4 n g v e es)
  have es: "set es \<subseteq> set (edges g)" and e: "e \<in> set (edges g)"
    using "4.prems"(2) by simp_all
  show ?case
  proof (cases "e_enabled (edge_h g e)")
    case False
    from "4.IH"(4) [OF False "4.prems"(1) es "4.prems"(3)] show ?thesis
      unfolding cleanEdges_disabled [OF False] .
  next
    case en: True
    show ?thesis
    proof (cases "e_type (edge_h g e) = v_value (var_h g v)")
      case True
      let ?g1 = "Clause_Dissable g (e_clause (edge_h g e))"
      have ev: "evolves g ?g1"
        by (rule evolves_Clause_Dissable)
      have wf1: "wellFormed ?g1"
        using ev "4.prems"(1) by (rule wellFormed_evolves)
      have es1: "set es \<subseteq> set (edges ?g1)"
        using es by (simp add: Clause_Dissable_def)
      have cnt: "enabledCount ?g1 \<le> n"
        using enabledCount_evolves [OF ev] "4.prems"(3) by simp
      from "4.IH"(1) [OF en True wf1 es1 cnt] show ?thesis
        unfolding cleanEdges_satisfied [OF en True] .
    next
      case False
      note unfold = cleanEdges_falsified [OF en False]
      let ?g1 = "Edge_Dissable g e" and ?c = "e_clause (edge_h g e)"
      have ev: "evolves g ?g1"
        by (rule evolves_Edge_Dissable)
      have wf1: "wellFormed ?g1"
        using ev "4.prems"(1) by (rule wellFormed_evolves)
      have "?c \<in> set (clauses g)"
        using "4.prems"(1) e unfolding wellFormed_def by blast
      then have c1: "?c \<in> set (clauses ?g1)"
        by (simp add: Edge_Dissable_def)
      have lt: "enabledCount ?g1 < enabledCount g"
        using e en by (rule enabledCount_Edge_Dissable)
      with "4.prems"(3) have cnt1: "enabledCount ?g1 < n"
        by simp
      from "4.IH"(2) [OF en False wf1 c1 cnt1] obtain r1 g2
        where up: "unitPropagation n ?g1 ?c = Some (r1, g2)"
        by auto
      show ?thesis
      proof (cases r1)
        case (Failed msg)
        with up show ?thesis
          unfolding unfold by simp
      next
        case Done
        have ev2: "evolves ?g1 g2"
          using up by (rule simplifier_evolves)
        have wf2: "wellFormed g2"
          using ev2 wf1 by (rule wellFormed_evolves)
        have "edges g2 = edges g"
          using ev2 unfolding evolves_def by (simp add: Edge_Dissable_def)
        with es have es2: "set es \<subseteq> set (edges g2)"
          by simp
        have cnt2: "enabledCount g2 \<le> n"
          using enabledCount_evolves [OF ev2] cnt1 by simp
        from up Done have up': "unitPropagation n ?g1 ?c = Some (Done, g2)"
          by simp
        from "4.IH"(3) [OF en False up' refl refl wf2 es2 cnt2] show ?thesis
          unfolding unfold up' by simp
      qed
    qed
  qed
next
  case (5 n g c)
  show ?case
  proof (cases "GetEnabledEdges g c")
    case Nil
    then show ?thesis by simp
  next
    case (Cons e es)
    show ?thesis
    proof (cases es)
      case Nil
      with Cons have one: "GetEnabledEdges g c = [e]"
        by simp
      then have "e \<in> set (c_allNeighbourEdges (clause_h g c))"
        unfolding GetEnabledEdges_def
        by (metis filter_is_subset list.set_intros(1) subsetD)
      with "5.prems"(1,2) have "e \<in> set (edges g)"
        unfolding wellFormed_def by blast
      with "5.prems"(1) have w: "e_variable (edge_h g e) \<in> set (variables g)"
        unfolding wellFormed_def by blast
      from "5.IH" [OF one refl "5.prems"(1) w "5.prems"(3)] show ?thesis
        using one by simp
    next
      case (Cons a as)
      with \<open>GetEnabledEdges g c = e # es\<close> show ?thesis
        by simp
    qed
  qed
qed

lemma simplifier_fuel:
  "assignVariable n g v b = Some res \<Longrightarrow> n \<le> m \<Longrightarrow> assignVariable m g v b = Some res"
  "cleanEdges n g v es = Some res \<Longrightarrow> n \<le> m \<Longrightarrow> cleanEdges m g v es = Some res"
  "unitPropagation n g c = Some res \<Longrightarrow> n \<le> m \<Longrightarrow> unitPropagation m g c = Some res"
proof (induction n g v b and n g v es and n g c arbitrary: res m and res m and res m
    rule: assignVariable_cleanEdges_unitPropagation.induct)
  case (1 g v b)
  then show ?case by simp
next
  case (2 n g v b)
  from "2.prems"(2) obtain m' where m: "m = Suc m'" and le: "n \<le> m'"
    by (cases m) simp_all
  show ?case
  proof (cases "v_assigned (var_h g v) \<and> v_value (var_h g v) \<noteq> b")
    case True
    from "2.prems"(1) show ?thesis
      unfolding m assignVariable_opposite [OF True] .
  next
    case False
    have "cleanEdges n (AssignValue g v b) v (v_allNeighbourEdges (var_h g v)) = Some res"
      using "2.prems"(1) unfolding assignVariable_fresh [OF False] .
    from "2.IH" [OF False this le] show ?thesis
      unfolding m assignVariable_fresh [OF False] .
  qed
next
  case (3 n g v)
  then show ?case by simp
next
  case (4 n g v e es)
  show ?case
  proof (cases "e_enabled (edge_h g e)")
    case False
    have "cleanEdges n g v es = Some res"
      using "4.prems"(1) unfolding cleanEdges_disabled [OF False] .
    from "4.IH"(4) [OF False this "4.prems"(2)] show ?thesis
      unfolding cleanEdges_disabled [OF False] .
  next
    case en: True
    show ?thesis
    proof (cases "e_type (edge_h g e) = v_value (var_h g v)")
      case True
      have "cleanEdges n (Clause_Dissable g (e_clause (edge_h g e))) v es = Some res"
        using "4.prems"(1) unfolding cleanEdges_satisfied [OF en True] .
      from "4.IH"(1) [OF en True this "4.prems"(2)] show ?thesis
        unfolding cleanEdges_satisfied [OF en True] .
    next
      case False
      note unfold = cleanEdges_falsified [OF en False]
      let ?g1 = "Edge_Dissable g e" and ?c = "e_clause (edge_h g e)"
      from "4.prems"(1) obtain r1 g2 where up: "unitPropagation n ?g1 ?c = Some (r1, g2)"
        unfolding unfold by (cases "unitPropagation n ?g1 ?c") auto
      have up_m: "unitPropagation m ?g1 ?c = Some (r1, g2)"
        using en False up "4.prems"(2) by (rule "4.IH"(2))
      show ?thesis
      proof (cases r1)
        case (Failed msg)
        have "Some res = Some (Failed msg, g2)"
          using "4.prems"(1) unfolding unfold up Failed by simp
        then show ?thesis
          unfolding unfold up_m Failed by simp
      next
        case Done
        have rest: "cleanEdges n g2 v es = Some res"
          using "4.prems"(1) unfolding unfold up Done by simp
        from up Done have up': "unitPropagation n ?g1 ?c = Some (Done, g2)"
          by simp
        from "4.IH"(3) [OF en False up' refl refl rest "4.prems"(2)]
        show ?thesis
          unfolding unfold up_m Done by simp
      qed
    qed
  qed
next
  case (5 n g c)
  show ?case
  proof (cases "GetEnabledEdges g c")
    case Nil
    with "5.prems"(1) show ?thesis by simp
  next
    case (Cons e es)
    show ?thesis
    proof (cases es)
      case Nil
      with Cons have one: "GetEnabledEdges g c = [e]"
        by simp
      with "5.prems"(1)
      have "assignVariable n g (e_variable (edge_h g e)) (e_type (edge_h g e)) = Some res"
        by simp
      from "5.IH" [OF one refl this "5.prems"(2)] show ?thesis
        using one by simp
    next
      case (Cons a as)
      with \<open>GetEnabledEdges g c = e # es\<close> "5.prems"(1) show ?thesis
        by simp
    qed
  qed
qed

text \<open>
  What stays the same while the simplifier runs, and how the clauses that lose an edge
  compose over the stages of a run.
\<close>

lemma evolves_vectors:
  "evolves g g' \<Longrightarrow> variables g' = variables g"
  "evolves g g' \<Longrightarrow> clauses g' = clauses g"
  "evolves g g' \<Longrightarrow> edges g' = edges g"
  "evolves g g' \<Longrightarrow> c_allNeighbourEdges (clause_h g' c) = c_allNeighbourEdges (clause_h g c)"
  "evolves g g' \<Longrightarrow> v_allNeighbourEdges (var_h g' v) = v_allNeighbourEdges (var_h g v)"
  unfolding evolves_def by blast+

lemma evolves_edge:
  "evolves g g' \<Longrightarrow> e_variable (edge_h g' e) = e_variable (edge_h g e)"
  "evolves g g' \<Longrightarrow> e_clause (edge_h g' e) = e_clause (edge_h g e)"
  "evolves g g' \<Longrightarrow> e_type (edge_h g' e) = e_type (edge_h g e)"
  unfolding evolves_def by blast+

lemma evolves_enabled:
  "evolves g g' \<Longrightarrow> e_enabled (edge_h g' e) \<Longrightarrow> e_enabled (edge_h g e)"
  unfolding evolves_def by blast

lemma evolves_assigned:
  "evolves g g' \<Longrightarrow> v_assigned (var_h g v) \<Longrightarrow> v_assigned (var_h g' v)"
  "evolves g g' \<Longrightarrow> v_assigned (var_h g v) \<Longrightarrow> v_value (var_h g' v) = v_value (var_h g v)"
  unfolding evolves_def by blast+

lemma wellFormed_clause:
  "wellFormed g \<Longrightarrow> c \<in> set (clauses g) \<Longrightarrow> e \<in> set (c_allNeighbourEdges (clause_h g c)) \<Longrightarrow>
   e \<in> set (edges g)"
  "wellFormed g \<Longrightarrow> c \<in> set (clauses g) \<Longrightarrow> e \<in> set (c_allNeighbourEdges (clause_h g c)) \<Longrightarrow>
   e_clause (edge_h g e) = c"
  unfolding wellFormed_def by blast+

lemma wellFormed_variable:
  "wellFormed g \<Longrightarrow> v \<in> set (variables g) \<Longrightarrow> e \<in> set (v_allNeighbourEdges (var_h g v)) \<Longrightarrow>
   e \<in> set (edges g)"
  "wellFormed g \<Longrightarrow> v \<in> set (variables g) \<Longrightarrow> e \<in> set (v_allNeighbourEdges (var_h g v)) \<Longrightarrow>
   e_variable (edge_h g e) = v"
  unfolding wellFormed_def by blast+

lemma wellFormed_edge:
  "wellFormed g \<Longrightarrow> e \<in> set (edges g) \<Longrightarrow> e_variable (edge_h g e) \<in> set (variables g)"
  "wellFormed g \<Longrightarrow> e \<in> set (edges g) \<Longrightarrow> e_clause (edge_h g e) \<in> set (clauses g)"
  "wellFormed g \<Longrightarrow> e \<in> set (edges g) \<Longrightarrow>
   e \<in> set (c_allNeighbourEdges (clause_h g (e_clause (edge_h g e))))"
  unfolding wellFormed_def by blast+

lemma shrunk_refl: "\<not> shrunk g g c"
  by (simp add: shrunk_def)

lemma shrunk_split:
  assumes "evolves g g1" and "shrunk g g' c"
  shows "shrunk g g1 c \<or> shrunk g1 g' c"
proof -
  from assms(2) obtain e where e: "e \<in> set (c_allNeighbourEdges (clause_h g c))"
    "e_enabled (edge_h g e)" "\<not> e_enabled (edge_h g' e)"
    unfolding shrunk_def by blast
  show ?thesis
  proof (cases "e_enabled (edge_h g1 e)")
    case True
    with e(1,3) have "shrunk g1 g' c"
      unfolding shrunk_def evolves_vectors(4) [OF assms(1)] by blast
    then show ?thesis ..
  next
    case False
    with e(1,2) have "shrunk g g1 c"
      unfolding shrunk_def by blast
    then show ?thesis ..
  qed
qed

lemma shrunk_before:
  assumes "evolves g g1" and "shrunk g1 g' c"
  shows "shrunk g g' c"
proof -
  from assms(2) obtain e where e: "e \<in> set (c_allNeighbourEdges (clause_h g c))"
    "e_enabled (edge_h g1 e)" "\<not> e_enabled (edge_h g' e)"
    unfolding shrunk_def evolves_vectors(4) [OF assms(1)] by blast
  from assms(1) e(2) have "e_enabled (edge_h g e)"
    by (rule evolves_enabled)
  with e(1,3) show ?thesis
    unfolding shrunk_def by blast
qed

lemma shrunk_after:
  assumes "evolves g1 g'" and "shrunk g g1 c"
  shows "shrunk g g' c"
proof -
  from assms(2) obtain e where e: "e \<in> set (c_allNeighbourEdges (clause_h g c))"
    "e_enabled (edge_h g e)" "\<not> e_enabled (edge_h g1 e)"
    unfolding shrunk_def by blast
  from assms(1) e(3) have "\<not> e_enabled (edge_h g' e)"
    using evolves_enabled by blast
  with e(1,2) show ?thesis
    unfolding shrunk_def by blast
qed

lemma GetEnabledEdges_kept:
  assumes "evolves g g'" and "\<not> shrunk g g' c"
  shows "GetEnabledEdges g' c = GetEnabledEdges g c"
proof -
  have "e_enabled (edge_h g' e) = e_enabled (edge_h g e)"
    if "e \<in> set (c_allNeighbourEdges (clause_h g c))" for e
    using that assms(2) evolves_enabled [OF assms(1)] unfolding shrunk_def by blast
  then show ?thesis
    unfolding GetEnabledEdges_def evolves_vectors(4) [OF assms(1)]
    by (intro filter_cong refl)
qed

lemma propagated_kept:
  assumes "evolves g g'" and "\<not> shrunk g g' c" and "propagated g c"
  shows "propagated g' c"
proof -
  note same = GetEnabledEdges_kept [OF assms(1,2)]
  show ?thesis
  proof (cases "GetEnabledEdges g c")
    case Nil
    with assms(3) show ?thesis
      by (simp add: propagated_def)
  next
    case (Cons e es)
    show ?thesis
    proof (cases es)
      case Nil
      with Cons have one: "GetEnabledEdges g c = [e]"
        by simp
      with assms(3) have a: "v_assigned (var_h g (e_variable (edge_h g e)))"
        and b: "v_value (var_h g (e_variable (edge_h g e))) = e_type (edge_h g e)"
        by (simp_all add: propagated_def)
      from evolves_assigned [OF assms(1) a] b
      have "v_assigned (var_h g' (e_variable (edge_h g e))) \<and>
          v_value (var_h g' (e_variable (edge_h g e))) = e_type (edge_h g e)"
        by simp
      then show ?thesis
        unfolding propagated_def same one
        by (simp add: evolves_edge [OF assms(1)])
    next
      case (Cons a as)
      with \<open>GetEnabledEdges g c = e # es\<close> show ?thesis
        unfolding propagated_def same by simp
    qed
  qed
qed

lemma propagated_not_contradicted: "propagated g c \<Longrightarrow> \<not> contradicted g c"
  unfolding propagated_def contradicted_def by (auto split: list.splits)

lemma shrunk_AssignValue: "shrunk (AssignValue g v b) g' c = shrunk g g' c"
  by (simp add: shrunk_def AssignValue_def)

lemma shrunk_Clause_Dissable: "shrunk (Clause_Dissable g d) g' c = shrunk g g' c"
  by (simp add: shrunk_def Clause_Dissable_def)

lemma shrunk_Edge_Dissable:
  assumes "wellFormed g" and "c \<in> set (clauses g)" and "shrunk g (Edge_Dissable g e) c"
  shows "c = e_clause (edge_h g e)"
proof -
  from assms(3) have "e \<in> set (c_allNeighbourEdges (clause_h g c))"
    unfolding shrunk_def by (auto simp add: Edge_Dissable_def split: if_splits)
  with assms(1,2) show ?thesis
    by (simp add: wellFormed_clause(2))
qed

lemma Edge_Dissable_shrinks:
  assumes "wellFormed g" and "e \<in> set (edges g)" and "e_enabled (edge_h g e)"
    and "evolves (Edge_Dissable g e) g'"
  shows "shrunk g g' (e_clause (edge_h g e))"
proof -
  from assms(1,2) have "e \<in> set (c_allNeighbourEdges (clause_h g (e_clause (edge_h g e))))"
    by (rule wellFormed_edge(3))
  moreover have "\<not> e_enabled (edge_h (Edge_Dissable g e) e)"
    by (simp add: Edge_Dissable_def)
  with assms(4) have "\<not> e_enabled (edge_h g' e)"
    using evolves_enabled by blast
  ultimately show ?thesis
    using assms(3) unfolding shrunk_def by blast
qed

text \<open>
  A run that returns \<^verbatim>\<open>true\<close> has carried unit propagation through: every clause that
  lost an edge is left propagated.  A run that returns \<^verbatim>\<open>false\<close> without the
  variable being assigned to the opposite value has left one of the clauses it shrank
  contradicted.
\<close>

lemma simplifier_propagated:
  "assignVariable n g v b = Some (Done, g') \<Longrightarrow> wellFormed g \<Longrightarrow> v \<in> set (variables g) \<Longrightarrow>
     \<forall>c\<in>set (clauses g). shrunk g g' c \<longrightarrow> propagated g' c"
  "cleanEdges n g v es = Some (Done, g') \<Longrightarrow> wellFormed g \<Longrightarrow> set es \<subseteq> set (edges g) \<Longrightarrow>
     \<forall>c\<in>set (clauses g). shrunk g g' c \<longrightarrow> propagated g' c"
  "unitPropagation n g c = Some (Done, g') \<Longrightarrow> wellFormed g \<Longrightarrow> c \<in> set (clauses g) \<Longrightarrow>
     propagated g' c \<and> (\<forall>d\<in>set (clauses g). shrunk g g' d \<longrightarrow> propagated g' d)"
proof (induction n g v b and n g v es and n g c arbitrary: g' and g' and g'
    rule: assignVariable_cleanEdges_unitPropagation.induct)
  case (1 g v b)
  then show ?case by simp
next
  case (2 n g v b)
  have fresh: "\<not> (v_assigned (var_h g v) \<and> v_value (var_h g v) \<noteq> b)"
  proof
    assume o: "v_assigned (var_h g v) \<and> v_value (var_h g v) \<noteq> b"
    from "2.prems"(1) [unfolded assignVariable_opposite [OF o]] show False
      by simp
  qed
  let ?g0 = "AssignValue g v b"
  have rec: "cleanEdges n ?g0 v (v_allNeighbourEdges (var_h g v)) = Some (Done, g')"
    using "2.prems"(1) unfolding assignVariable_fresh [OF fresh] .
  have ev: "evolves g ?g0"
    using fresh by (rule evolves_AssignValue)
  have wf0: "wellFormed ?g0"
    using ev "2.prems"(2) by (rule wellFormed_evolves)
  have sub: "set (v_allNeighbourEdges (var_h g v)) \<subseteq> set (edges ?g0)"
    using wellFormed_variable(1) [OF "2.prems"(2,3)] by (auto simp add: AssignValue_def)
  have cl: "clauses ?g0 = clauses g"
    by (simp add: AssignValue_def)
  from "2.IH" [OF fresh rec wf0 sub] show ?case
    unfolding shrunk_AssignValue cl .
next
  case (3 n g v)
  then show ?case by (simp add: shrunk_refl)
next
  case (4 n g v e es)
  have es: "set es \<subseteq> set (edges g)" and e: "e \<in> set (edges g)"
    using "4.prems"(3) by simp_all
  show ?case
  proof (cases "e_enabled (edge_h g e)")
    case False
    have rec: "cleanEdges n g v es = Some (Done, g')"
      using "4.prems"(1) unfolding cleanEdges_disabled [OF False] .
    from "4.IH"(4) [OF False rec "4.prems"(2) es] show ?thesis .
  next
    case en: True
    show ?thesis
    proof (cases "e_type (edge_h g e) = v_value (var_h g v)")
      case True
      let ?g1 = "Clause_Dissable g (e_clause (edge_h g e))"
      have rec: "cleanEdges n ?g1 v es = Some (Done, g')"
        using "4.prems"(1) unfolding cleanEdges_satisfied [OF en True] .
      have wf1: "wellFormed ?g1"
        using evolves_Clause_Dissable "4.prems"(2) by (rule wellFormed_evolves)
      have es1: "set es \<subseteq> set (edges ?g1)"
        using es by (simp add: Clause_Dissable_def)
      have cl: "clauses ?g1 = clauses g"
        by (simp add: Clause_Dissable_def)
      from "4.IH"(1) [OF en True rec wf1 es1] show ?thesis
        unfolding shrunk_Clause_Dissable cl .
    next
      case False
      note unfold = cleanEdges_falsified [OF en False]
      let ?gd = "Edge_Dissable g e" and ?ce = "e_clause (edge_h g e)"
      from "4.prems"(1) obtain r1 g1 where up: "unitPropagation n ?gd ?ce = Some (r1, g1)"
        unfolding unfold by (cases "unitPropagation n ?gd ?ce") auto
      have r1: "r1 = Done"
        using "4.prems"(1) up unfolding unfold by (cases r1) simp_all
      from up r1 have up': "unitPropagation n ?gd ?ce = Some (Done, g1)"
        by simp
      have rec: "cleanEdges n g1 v es = Some (Done, g')"
        using "4.prems"(1) up' unfolding unfold by simp
      have evd: "evolves g ?gd"
        by (rule evolves_Edge_Dissable)
      have wfd: "wellFormed ?gd"
        using evd "4.prems"(2) by (rule wellFormed_evolves)
      have cld: "clauses ?gd = clauses g"
        by (simp add: Edge_Dissable_def)
      have ced: "?ce \<in> set (clauses ?gd)"
        using wellFormed_edge(2) [OF "4.prems"(2) e] unfolding cld .
      have ev1: "evolves ?gd g1"
        using up' by (rule simplifier_evolves)
      have ev01: "evolves g g1"
        using evd ev1 by (rule evolves_trans)
      have wf1: "wellFormed g1"
        using ev1 wfd by (rule wellFormed_evolves)
      have cl1: "clauses g1 = clauses g"
        using ev01 by (rule evolves_vectors)
      have es1: "set es \<subseteq> set (edges g1)"
        using es unfolding evolves_vectors(3) [OF ev01] .
      have ev2: "evolves g1 g'"
        using rec by (rule simplifier_evolves)
      note ih_up = "4.IH"(2) [OF en False up' wfd ced, unfolded cld]
      note ih_rest = "4.IH"(3) [OF en False up' refl refl rec wf1 es1, unfolded cl1]
      show ?thesis
      proof (intro ballI impI)
        fix c assume c: "c \<in> set (clauses g)" and s: "shrunk g g' c"
        show "propagated g' c"
        proof (cases "shrunk g1 g' c")
          case True
          with ih_rest c show ?thesis by blast
        next
          case late: False
          with shrunk_split [OF ev01 s] have s1: "shrunk g g1 c"
            by blast
          have "propagated g1 c"
          proof (cases "shrunk ?gd g1 c")
            case True
            with ih_up c show ?thesis by blast
          next
            case False
            with shrunk_split [OF evd s1] have "shrunk g ?gd c"
              by blast
            with "4.prems"(2) c have "c = ?ce"
              by (rule shrunk_Edge_Dissable)
            with ih_up show ?thesis by simp
          qed
          with ev2 late show ?thesis
            by (rule propagated_kept)
        qed
      qed
    qed
  qed
next
  case (5 n g c)
  show ?case
  proof (cases "GetEnabledEdges g c")
    case Nil
    with "5.prems"(1) show ?thesis by simp
  next
    case (Cons e es)
    show ?thesis
    proof (cases es)
      case Nil
      with Cons have one: "GetEnabledEdges g c = [e]"
        by simp
      let ?w = "e_variable (edge_h g e)" and ?t = "e_type (edge_h g e)"
      from one "5.prems"(1) have call: "assignVariable n g ?w ?t = Some (Done, g')"
        by simp
      have "e \<in> set (c_allNeighbourEdges (clause_h g c))"
        using one unfolding GetEnabledEdges_def
        by (metis filter_is_subset list.set_intros(1) subsetD)
      with "5.prems"(2,3) have "e \<in> set (edges g)"
        by (rule wellFormed_clause(1))
      with "5.prems"(2) have w: "?w \<in> set (variables g)"
        by (rule wellFormed_edge(1))
      note ih = "5.IH" [OF one refl call "5.prems"(2) w]
      have ev: "evolves g g'"
        using call by (rule simplifier_evolves)
      from assignVariable_Done [OF call]
      have a: "v_assigned (var_h g' ?w)" and b: "v_value (var_h g' ?w) = ?t"
        by blast+
      have "propagated g' c"
      proof (cases "shrunk g g' c")
        case True
        with ih "5.prems"(3) show ?thesis by blast
      next
        case False
        with ev have "GetEnabledEdges g' c = [e]"
          unfolding one [symmetric] by (rule GetEnabledEdges_kept)
        with a b show ?thesis
          unfolding propagated_def by (simp add: evolves_edge [OF ev])
      qed
      with ih show ?thesis by blast
    next
      case (Cons a as)
      with \<open>GetEnabledEdges g c = e # es\<close> "5.prems"(1) have "g' = g"
        by simp
      with Cons \<open>GetEnabledEdges g c = e # es\<close> show ?thesis
        by (simp add: propagated_def shrunk_refl)
    qed
  qed
qed

lemma simplifier_contradicted:
  "assignVariable n g v b = Some (Failed msg, g') \<Longrightarrow> wellFormed g \<Longrightarrow>
   v \<in> set (variables g) \<Longrightarrow>
     (g' = g \<and> v_assigned (var_h g v) \<and> v_value (var_h g v) \<noteq> b) \<or>
     (\<exists>c\<in>set (clauses g). shrunk g g' c \<and> contradicted g' c)"
  "cleanEdges n g v es = Some (Failed msg, g') \<Longrightarrow> wellFormed g \<Longrightarrow>
   set es \<subseteq> set (edges g) \<Longrightarrow>
     \<exists>c\<in>set (clauses g). shrunk g g' c \<and> contradicted g' c"
  "unitPropagation n g c = Some (Failed msg, g') \<Longrightarrow> wellFormed g \<Longrightarrow>
   c \<in> set (clauses g) \<Longrightarrow>
     contradicted g' c \<or> (\<exists>d\<in>set (clauses g). shrunk g g' d \<and> contradicted g' d)"
proof (induction n g v b and n g v es and n g c arbitrary: msg g' and msg g' and msg g'
    rule: assignVariable_cleanEdges_unitPropagation.induct)
  case (1 g v b)
  then show ?case by simp
next
  case (2 n g v b)
  show ?case
  proof (cases "v_assigned (var_h g v) \<and> v_value (var_h g v) \<noteq> b")
    case True
    from "2.prems"(1) [unfolded assignVariable_opposite [OF True]] True show ?thesis
      by simp
  next
    case fresh: False
    let ?g0 = "AssignValue g v b"
    have rec: "cleanEdges n ?g0 v (v_allNeighbourEdges (var_h g v)) = Some (Failed msg, g')"
      using "2.prems"(1) unfolding assignVariable_fresh [OF fresh] .
    have ev: "evolves g ?g0"
      using fresh by (rule evolves_AssignValue)
    have wf0: "wellFormed ?g0"
      using ev "2.prems"(2) by (rule wellFormed_evolves)
    have sub: "set (v_allNeighbourEdges (var_h g v)) \<subseteq> set (edges ?g0)"
      using wellFormed_variable(1) [OF "2.prems"(2,3)] by (auto simp add: AssignValue_def)
    have cl: "clauses ?g0 = clauses g"
      by (simp add: AssignValue_def)
    from "2.IH" [OF fresh rec wf0 sub]
    have "\<exists>c\<in>set (clauses g). shrunk g g' c \<and> contradicted g' c"
      unfolding shrunk_AssignValue cl .
    then show ?thesis ..
  qed
next
  case (3 n g v)
  then show ?case by simp
next
  case (4 n g v e es)
  have es: "set es \<subseteq> set (edges g)" and e: "e \<in> set (edges g)"
    using "4.prems"(3) by simp_all
  show ?case
  proof (cases "e_enabled (edge_h g e)")
    case False
    have rec: "cleanEdges n g v es = Some (Failed msg, g')"
      using "4.prems"(1) unfolding cleanEdges_disabled [OF False] .
    from "4.IH"(4) [OF False rec "4.prems"(2) es] show ?thesis .
  next
    case en: True
    show ?thesis
    proof (cases "e_type (edge_h g e) = v_value (var_h g v)")
      case True
      let ?g1 = "Clause_Dissable g (e_clause (edge_h g e))"
      have rec: "cleanEdges n ?g1 v es = Some (Failed msg, g')"
        using "4.prems"(1) unfolding cleanEdges_satisfied [OF en True] .
      have wf1: "wellFormed ?g1"
        using evolves_Clause_Dissable "4.prems"(2) by (rule wellFormed_evolves)
      have es1: "set es \<subseteq> set (edges ?g1)"
        using es by (simp add: Clause_Dissable_def)
      have cl: "clauses ?g1 = clauses g"
        by (simp add: Clause_Dissable_def)
      from "4.IH"(1) [OF en True rec wf1 es1] show ?thesis
        unfolding shrunk_Clause_Dissable cl .
    next
      case False
      note unfold = cleanEdges_falsified [OF en False]
      let ?gd = "Edge_Dissable g e" and ?ce = "e_clause (edge_h g e)"
      from "4.prems"(1) obtain r1 g1 where up: "unitPropagation n ?gd ?ce = Some (r1, g1)"
        unfolding unfold by (cases "unitPropagation n ?gd ?ce") auto
      have evd: "evolves g ?gd"
        by (rule evolves_Edge_Dissable)
      have wfd: "wellFormed ?gd"
        using evd "4.prems"(2) by (rule wellFormed_evolves)
      have cld: "clauses ?gd = clauses g"
        by (simp add: Edge_Dissable_def)
      have ce: "?ce \<in> set (clauses g)"
        using "4.prems"(2) e by (rule wellFormed_edge(2))
      then have ced: "?ce \<in> set (clauses ?gd)"
        unfolding cld .
      have ev1: "evolves ?gd g1"
        using up by (rule simplifier_evolves)
      have ev01: "evolves g g1"
        using evd ev1 by (rule evolves_trans)
      show ?thesis
      proof (cases r1)
        case (Failed msg1)
        with up "4.prems"(1) have same: "msg1 = msg" "g1 = g'"
          unfolding unfold by simp_all
        from up Failed have up_f: "unitPropagation n ?gd ?ce = Some (Failed msg, g')"
          unfolding same by simp
        from "4.IH"(2) [OF en False up_f wfd ced, unfolded cld] show ?thesis
        proof
          assume "contradicted g' ?ce"
          moreover have "shrunk g g' ?ce"
            using "4.prems"(2) e en ev1 [unfolded same] by (rule Edge_Dissable_shrinks)
          ultimately show ?thesis
            using ce by blast
        next
          assume "\<exists>d\<in>set (clauses g). shrunk ?gd g' d \<and> contradicted g' d"
          then obtain d where d: "d \<in> set (clauses g)" "shrunk ?gd g' d" "contradicted g' d"
            by blast
          from evd d(2) have "shrunk g g' d"
            by (rule shrunk_before)
          with d(1,3) show ?thesis by blast
        qed
      next
        case Done
        with up have up': "unitPropagation n ?gd ?ce = Some (Done, g1)"
          by simp
        have rec: "cleanEdges n g1 v es = Some (Failed msg, g')"
          using "4.prems"(1) up' unfolding unfold by simp
        have wf1: "wellFormed g1"
          using ev1 wfd by (rule wellFormed_evolves)
        have cl1: "clauses g1 = clauses g"
          using ev01 by (rule evolves_vectors)
        have es1: "set es \<subseteq> set (edges g1)"
          using es unfolding evolves_vectors(3) [OF ev01] .
        from "4.IH"(3) [OF en False up' refl refl rec wf1 es1, unfolded cl1]
        obtain d where d: "d \<in> set (clauses g)" "shrunk g1 g' d" "contradicted g' d"
          by blast
        from ev01 d(2) have "shrunk g g' d"
          by (rule shrunk_before)
        with d(1,3) show ?thesis by blast
      qed
    qed
  qed
next
  case (5 n g c)
  show ?case
  proof (cases "GetEnabledEdges g c")
    case Nil
    with "5.prems"(1) have "g' = g"
      by simp
    with Nil have "contradicted g' c"
      by (simp add: contradicted_def)
    then show ?thesis ..
  next
    case (Cons e es)
    show ?thesis
    proof (cases es)
      case Nil
      with Cons have one: "GetEnabledEdges g c = [e]"
        by simp
      let ?w = "e_variable (edge_h g e)" and ?t = "e_type (edge_h g e)"
      from one "5.prems"(1) have call: "assignVariable n g ?w ?t = Some (Failed msg, g')"
        by simp
      have "e \<in> set (c_allNeighbourEdges (clause_h g c))"
        using one unfolding GetEnabledEdges_def
        by (metis filter_is_subset list.set_intros(1) subsetD)
      with "5.prems"(2,3) have "e \<in> set (edges g)"
        by (rule wellFormed_clause(1))
      with "5.prems"(2) have w: "?w \<in> set (variables g)"
        by (rule wellFormed_edge(1))
      from "5.IH" [OF one refl call "5.prems"(2) w] show ?thesis
      proof
        assume "g' = g \<and> v_assigned (var_h g ?w) \<and> v_value (var_h g ?w) \<noteq> ?t"
        with one have "contradicted g' c"
          by (simp add: contradicted_def)
        then show ?thesis ..
      next
        assume "\<exists>c\<in>set (clauses g). shrunk g g' c \<and> contradicted g' c"
        then show ?thesis ..
      qed
    next
      case (Cons a as)
      with \<open>GetEnabledEdges g c = e # es\<close> "5.prems"(1) show ?thesis
        by simp
    qed
  qed
qed

lemma assignVariable_Done_edges:
  assumes "assignVariable n g v b = Some (Done, g')"
  shows "\<forall>e\<in>set (v_allNeighbourEdges (var_h g' v)).
           e_enabled (edge_h g' e) \<longrightarrow>
           e_type (edge_h g' e) = b \<and> \<not> c_enabled (clause_h g' (e_clause (edge_h g' e)))"
proof (cases n)
  case 0
  with assms show ?thesis by simp
next
  case (Suc m)
  have fresh: "\<not> (v_assigned (var_h g v) \<and> v_value (var_h g v) \<noteq> b)"
  proof
    assume "v_assigned (var_h g v) \<and> v_value (var_h g v) \<noteq> b"
    from assms [unfolded Suc assignVariable_opposite [OF this]] show False
      by simp
  qed
  let ?g0 = "AssignValue g v b"
  have rec: "cleanEdges m ?g0 v (v_allNeighbourEdges (var_h g v)) = Some (Done, g')"
    using assms unfolding Suc assignVariable_fresh [OF fresh] .
  have a0: "v_assigned (var_h ?g0 v)"
    and l0: "v_allNeighbourEdges (var_h ?g0 v) = v_allNeighbourEdges (var_h g v)"
    by (simp_all add: AssignValue_def)
  have ev: "evolves ?g0 g'"
    using rec by (rule simplifier_evolves)
  have l: "v_allNeighbourEdges (var_h g' v) = v_allNeighbourEdges (var_h g v)"
    using evolves_vectors(5) [OF ev] l0 by simp
  from assignVariable_Done [OF assms] have b: "v_value (var_h g' v) = b"
    by blast
  from cleanEdges_cleaned [OF a0 rec] show ?thesis
    unfolding l b .
qed

lemma assignVariable_falsified:
  assumes run: "assignVariable n g v b = Some (Done, g')"
    and wf: "wellFormed g" and v: "v \<in> set (variables g)"
    and e: "e \<in> set (v_allNeighbourEdges (var_h g v))"
    and en: "e_enabled (edge_h g e)" and ty: "e_type (edge_h g e) \<noteq> b"
  shows "\<not> e_enabled (edge_h g' e) \<and> propagated g' (e_clause (edge_h g e))"
proof -
  have ev: "evolves g g'"
    using run by (rule simplifier_evolves)
  have "e \<in> set (v_allNeighbourEdges (var_h g' v))"
    using e unfolding evolves_vectors(5) [OF ev] .
  with assignVariable_Done_edges [OF run] ty have dis: "\<not> e_enabled (edge_h g' e)"
    unfolding evolves_edge(3) [OF ev] by blast
  have ed: "e \<in> set (edges g)"
    using wf v e by (rule wellFormed_variable(1))
  then have "e \<in> set (c_allNeighbourEdges (clause_h g (e_clause (edge_h g e))))"
    using wf by (intro wellFormed_edge(3))
  with en dis have "shrunk g g' (e_clause (edge_h g e))"
    unfolding shrunk_def by blast
  moreover have "e_clause (edge_h g e) \<in> set (clauses g)"
    using wf ed by (rule wellFormed_edge(2))
  ultimately have "propagated g' (e_clause (edge_h g e))"
    using simplifier_propagated(1) [OF run wf v] by blast
  with dis show ?thesis ..
qed

lemma assignVariable_fails_iff:
  assumes run: "assignVariable n g v b = Some (r, g')"
    and wf: "wellFormed g" and v: "v \<in> set (variables g)"
  shows "(r \<noteq> Done) =
         ((v_assigned (var_h g v) \<and> v_value (var_h g v) \<noteq> b) \<or>
          (\<exists>c\<in>set (clauses g). shrunk g g' c \<and> contradicted g' c))"
proof (cases r)
  case Done
  with run have d: "assignVariable n g v b = Some (Done, g')"
    by simp
  have fresh: "\<not> (v_assigned (var_h g v) \<and> v_value (var_h g v) \<noteq> b)"
  proof
    assume o: "v_assigned (var_h g v) \<and> v_value (var_h g v) \<noteq> b"
    from d obtain m where "n = Suc m"
      by (cases n) simp_all
    with d [unfolded this assignVariable_opposite [OF o]] show False
      by simp
  qed
  have "\<not> (\<exists>c\<in>set (clauses g). shrunk g g' c \<and> contradicted g' c)"
    using simplifier_propagated(1) [OF d wf v] propagated_not_contradicted by blast
  with fresh Done show ?thesis
    by simp
next
  case (Failed msg)
  with run have "assignVariable n g v b = Some (Failed msg, g')"
    by simp
  from simplifier_contradicted(1) [OF this wf v]
  have "(v_assigned (var_h g v) \<and> v_value (var_h g v) \<noteq> b) \<or>
      (\<exists>c\<in>set (clauses g). shrunk g g' c \<and> contradicted g' c)"
    by blast
  with Failed show ?thesis
    by simp
qed

lemma unitPropagation_none:
  "GetEnabledEdges g c = [] \<Longrightarrow> unitPropagation n g c = Some (Failed (EmptyClause c), g)"
  by simp

lemma unitPropagation_one:
  "GetEnabledEdges g c = [e] \<Longrightarrow>
   unitPropagation n g c = assignVariable n g (e_variable (edge_h g e)) (e_type (edge_h g e))"
  by simp

lemma unitPropagation_many:
  "2 \<le> length (GetEnabledEdges g c) \<Longrightarrow> unitPropagation n g c = Some (Done, g)"
  by (cases "GetEnabledEdges g c" rule: remdups_adj.cases) simp_all


lemma verdict_pair: "map_option fst r = Some x \<Longrightarrow> r = Some (x, snd (the r))"
  by (cases r) auto

text \<open>
  Claim C6, as stated, fails.  In \<open>gLate\<close> the variable \<open>x0\<close> is unassigned, and
  \<^verbatim>\<open>assignVariable(x0, true)\<close> returns \<^verbatim>\<open>false\<close> with the message for
  \<open>x1\<close>: unit propagation sets \<open>x1\<close> and then \<open>x2\<close> to \<open>True\<close>, and the clause
  \<open>(\<not>x1 \<or> \<not>x2)\<close>, left with the edge of \<open>x1\<close>, forces \<open>x1\<close> to
  \<open>False\<close>.  Every clause still has an enabled edge in the graph that is left, so no
  clause with zero enabled edges was reached.
\<close>

theorem assignVariable_counterexample:
  "map_option fst (assignVariable 7 gLate 0 True) = Some (Failed (OppositeValue 1)) \<and>
   \<not> v_assigned (var_h gLate 0) \<and>
   clauses gLateFailed = [0, 1, 2] \<and>
   GetEnabledEdges gLateFailed 0 = [1] \<and>
   GetEnabledEdges gLateFailed 1 = [3] \<and>
   GetEnabledEdges gLateFailed 2 = [4]"
  by code_simp

text \<open>
  Claim C6, amended.  For \<^verbatim>\<open>assignVariable(v, b)\<close>, in this order:

  \<^item> on a well-formed graph it returns, and with the same result for every bound above the
    number of enabled edges;
  \<^item> when it returns \<^verbatim>\<open>true\<close>, \<open>v\<close> is assigned with value \<open>b\<close>, every edge of
    \<open>v\<close> that is still enabled has polarity \<open>b\<close>, and the clause of such an edge is
    disabled;
  \<^item> when it returns \<^verbatim>\<open>true\<close> on a well-formed graph, every edge of \<open>v\<close> that was
    enabled with the other polarity has been disabled and its clause is left propagated,
    and so is every clause that lost an edge during the call: one enabled edge left means
    that the edge's variable has been assigned to the edge's polarity;
  \<^item> it returns \<^verbatim>\<open>false\<close> at once, changing nothing, when \<open>v\<close> is already assigned
    to the opposite value;
  \<^item> whenever it returns \<^verbatim>\<open>false\<close>, either that was the case, or the message names an
    assigned variable \<open>w\<close> that the one enabled edge left in some clause forces to the
    opposite value, or it names a clause with no enabled edge;
  \<^item> on a well-formed graph it returns \<^verbatim>\<open>false\<close> exactly when \<open>v\<close> is already
    assigned to the opposite value or a clause that lost an edge during the call is left
    contradicted.

  For \<^verbatim>\<open>unitPropagation\<close> on a clause: it fails with zero enabled edges, is the
  assignment of the edge's variable to the edge's polarity with exactly one, and returns
  \<^verbatim>\<open>true\<close> with the graph unchanged with two or more; when it returns \<^verbatim>\<open>true\<close>
  the clause and every clause that lost an edge are left propagated.
\<close>

theorem assignVariable_contract:
  "(wellFormed g \<and> v \<in> set (variables g) \<longrightarrow>
      (\<exists>res. \<forall>m. enabledCount g < m \<longrightarrow> assignVariable m g v b = Some res)) \<and>
   (assignVariable n g v b = Some (Done, g') \<longrightarrow>
      v_assigned (var_h g' v) \<and> v_value (var_h g' v) = b \<and>
      (\<forall>e\<in>set (v_allNeighbourEdges (var_h g' v)).
         e_enabled (edge_h g' e) \<longrightarrow>
         e_type (edge_h g' e) = b \<and> \<not> c_enabled (clause_h g' (e_clause (edge_h g' e))))) \<and>
   (wellFormed g \<and> v \<in> set (variables g) \<and> assignVariable n g v b = Some (Done, g') \<longrightarrow>
      (\<forall>e\<in>set (v_allNeighbourEdges (var_h g v)).
         e_enabled (edge_h g e) \<and> e_type (edge_h g e) \<noteq> b \<longrightarrow>
         \<not> e_enabled (edge_h g' e) \<and> propagated g' (e_clause (edge_h g e))) \<and>
      (\<forall>c\<in>set (clauses g). shrunk g g' c \<longrightarrow> propagated g' c)) \<and>
   (v_assigned (var_h g v) \<and> v_value (var_h g v) \<noteq> b \<longrightarrow>
      assignVariable (Suc n) g v b = Some (Failed (OppositeValue v), g)) \<and>
   (assignVariable n g v b = Some (Failed msg, g') \<longrightarrow>
      (msg = OppositeValue v \<and> g' = g \<and> v_assigned (var_h g v) \<and> v_value (var_h g v) \<noteq> b) \<or>
      (\<exists>w. msg = OppositeValue w \<and> v_assigned (var_h g' w) \<and>
         (\<exists>c e. GetEnabledEdges g' c = [e] \<and> e_variable (edge_h g' e) = w \<and>
                e_type (edge_h g' e) \<noteq> v_value (var_h g' w))) \<or>
      (\<exists>c. msg = EmptyClause c \<and> GetEnabledEdges g' c = [])) \<and>
   (wellFormed g \<and> v \<in> set (variables g) \<and> assignVariable n g v b = Some (r, g') \<longrightarrow>
      (r \<noteq> Done) =
        ((v_assigned (var_h g v) \<and> v_value (var_h g v) \<noteq> b) \<or>
         (\<exists>c\<in>set (clauses g). shrunk g g' c \<and> contradicted g' c))) \<and>
   (GetEnabledEdges g c = [] \<longrightarrow>
      unitPropagation n g c = Some (Failed (EmptyClause c), g)) \<and>
   (GetEnabledEdges g c = [e] \<longrightarrow>
      unitPropagation n g c
        = assignVariable n g (e_variable (edge_h g e)) (e_type (edge_h g e))) \<and>
   (2 \<le> length (GetEnabledEdges g c) \<longrightarrow> unitPropagation n g c = Some (Done, g)) \<and>
   (wellFormed g \<and> c \<in> set (clauses g) \<and> unitPropagation n g c = Some (Done, g') \<longrightarrow>
      propagated g' c \<and> (\<forall>d\<in>set (clauses g). shrunk g g' d \<longrightarrow> propagated g' d))"
proof (intro conjI impI)
  assume a: "wellFormed g \<and> v \<in> set (variables g)"
  then obtain res where res: "assignVariable (Suc (enabledCount g)) g v b = Some res"
    using simplifier_returns(1) [of g v "Suc (enabledCount g)" b] by auto
  have "\<forall>m. enabledCount g < m \<longrightarrow> assignVariable m g v b = Some res"
  proof (intro allI impI)
    fix m assume "enabledCount g < m"
    then have "Suc (enabledCount g) \<le> m" by simp
    with res show "assignVariable m g v b = Some res"
      by (rule simplifier_fuel(1))
  qed
  then show "\<exists>res. \<forall>m. enabledCount g < m \<longrightarrow> assignVariable m g v b = Some res"
    by blast
next
  assume run: "assignVariable n g v b = Some (Done, g')"
  from assignVariable_Done [OF run] show "v_assigned (var_h g' v)" by blast
  from assignVariable_Done [OF run] show "v_value (var_h g' v) = b" by blast
  from run show "\<forall>e\<in>set (v_allNeighbourEdges (var_h g' v)).
         e_enabled (edge_h g' e) \<longrightarrow>
         e_type (edge_h g' e) = b \<and> \<not> c_enabled (clause_h g' (e_clause (edge_h g' e)))"
    by (rule assignVariable_Done_edges)
next
  assume a: "wellFormed g \<and> v \<in> set (variables g) \<and> assignVariable n g v b = Some (Done, g')"
  then have wf: "wellFormed g" and v: "v \<in> set (variables g)"
    and run: "assignVariable n g v b = Some (Done, g')"
    by blast+
  show "\<forall>e\<in>set (v_allNeighbourEdges (var_h g v)).
         e_enabled (edge_h g e) \<and> e_type (edge_h g e) \<noteq> b \<longrightarrow>
         \<not> e_enabled (edge_h g' e) \<and> propagated g' (e_clause (edge_h g e))"
    using assignVariable_falsified [OF run wf v] by blast
  from run wf v show "\<forall>c\<in>set (clauses g). shrunk g g' c \<longrightarrow> propagated g' c"
    by (rule simplifier_propagated(1))
next
  assume "v_assigned (var_h g v) \<and> v_value (var_h g v) \<noteq> b"
  then show "assignVariable (Suc n) g v b = Some (Failed (OppositeValue v), g)"
    by (rule assignVariable_opposite)
next
  assume "assignVariable n g v b = Some (Failed msg, g')"
  then show "(msg = OppositeValue v \<and> g' = g \<and> v_assigned (var_h g v) \<and> v_value (var_h g v) \<noteq> b) \<or>
      (\<exists>w. msg = OppositeValue w \<and> v_assigned (var_h g' w) \<and>
         (\<exists>c e. GetEnabledEdges g' c = [e] \<and> e_variable (edge_h g' e) = w \<and>
                e_type (edge_h g' e) \<noteq> v_value (var_h g' w))) \<or>
      (\<exists>c. msg = EmptyClause c \<and> GetEnabledEdges g' c = [])"
    by (rule simplifier_Failed(1))
next
  assume "wellFormed g \<and> v \<in> set (variables g) \<and> assignVariable n g v b = Some (r, g')"
  then have wf: "wellFormed g" and v: "v \<in> set (variables g)"
    and run: "assignVariable n g v b = Some (r, g')"
    by blast+
  from run wf v show "(r \<noteq> Done) =
        ((v_assigned (var_h g v) \<and> v_value (var_h g v) \<noteq> b) \<or>
         (\<exists>c\<in>set (clauses g). shrunk g g' c \<and> contradicted g' c))"
    by (rule assignVariable_fails_iff)
next
  assume "GetEnabledEdges g c = []"
  then show "unitPropagation n g c = Some (Failed (EmptyClause c), g)"
    by (rule unitPropagation_none)
next
  assume "GetEnabledEdges g c = [e]"
  then show "unitPropagation n g c
      = assignVariable n g (e_variable (edge_h g e)) (e_type (edge_h g e))"
    by (rule unitPropagation_one)
next
  assume "2 \<le> length (GetEnabledEdges g c)"
  then show "unitPropagation n g c = Some (Done, g)"
    by (rule unitPropagation_many)
next
  assume a: "wellFormed g \<and> c \<in> set (clauses g) \<and> unitPropagation n g c = Some (Done, g')"
  then have wf: "wellFormed g" and c: "c \<in> set (clauses g)"
    and run: "unitPropagation n g c = Some (Done, g')"
    by blast+
  from simplifier_propagated(3) [OF run wf c] show "propagated g' c" by blast
  from simplifier_propagated(3) [OF run wf c]
  show "\<forall>d\<in>set (clauses g). shrunk g g' d \<longrightarrow> propagated g' d" by blast
qed

text \<open>
  Witness for C6 amended.  In \<open>gChain\<close> the assignment of \<open>x0\<close> to \<open>True\<close> forces
  \<open>x1\<close> and \<open>x2\<close> by unit propagation and returns \<^verbatim>\<open>true\<close>: the clause
  \<open>(x0 \<or> x2 \<or> x3)\<close>, where \<open>x0\<close> occurs positively, is disabled; the edge of
  \<open>\<not>x0\<close> is disabled and its clause \<open>(\<not>x0 \<or> x1)\<close> is left propagated, like the
  clause \<open>(\<not>x1 \<or> x2)\<close> that lost an edge; no clause that lost an edge is contradicted.
  Assigning \<open>x0\<close> to \<open>False\<close> afterwards fails at once.  In \<open>gLate\<close> the assignment
  of \<open>x0\<close> to \<open>True\<close> fails on \<open>x1\<close>, which unit propagation has set to \<open>True\<close>
  and which the clause \<open>(\<not>x1 \<or> \<not>x2)\<close> then forces to \<open>False\<close>; in \<open>gUnit\<close>
  it fails on the clause \<open>(\<not>x0)\<close>, left without an enabled edge.  Unit propagation
  fails on that clause, fails on the clause \<open>(\<not>x1 \<or> \<not>x2)\<close> of \<open>gLateFailed\<close> with
  its one enabled edge, leaves \<open>gChainDone\<close> unchanged on the clause with three enabled
  edges, and on the clause \<open>(\<not>x0 \<or> x1)\<close> of \<open>gChainDone\<close>, with its one enabled
  edge, assigns \<open>x1\<close> again and leaves the clause propagated.
\<close>

theorem assignVariable_contract_witness:
  "wellFormed gChain \<and> 0 \<in> set (variables gChain) \<and>
   (\<forall>m. m \<le> enabledCount gChain \<or> assignVariable m gChain 0 True = Some (Done, gChainDone)) \<and>
   v_assigned (var_h gChainDone 0) \<and> v_value (var_h gChainDone 0) = True \<and>
   \<not> c_enabled (clause_h gChainDone 2) \<and>
   \<not> e_enabled (edge_h gChainDone 0) \<and> propagated gChainDone 0 \<and>
   shrunk gChain gChainDone 1 \<and> propagated gChainDone 1 \<and>
   \<not> (\<exists>c\<in>set (clauses gChain). shrunk gChain gChainDone c \<and> contradicted gChainDone c) \<and>
   assignVariable (Suc 0) gChainDone 0 False = Some (Failed (OppositeValue 0), gChainDone) \<and>
   assignVariable 7 gLate 0 True = Some (Failed (OppositeValue 1), gLateFailed) \<and>
   v_assigned (var_h gLateFailed 1) \<and>
   (\<exists>c e. GetEnabledEdges gLateFailed c = [e] \<and> e_variable (edge_h gLateFailed e) = 1 \<and>
          e_type (edge_h gLateFailed e) \<noteq> v_value (var_h gLateFailed 1)) \<and>
   (\<exists>c\<in>set (clauses gLate). shrunk gLate gLateFailed c \<and> contradicted gLateFailed c) \<and>
   assignVariable 2 gUnit 0 True = Some (Failed (EmptyClause 0), gUnitFailed) \<and>
   GetEnabledEdges gUnitFailed 0 = [] \<and>
   (\<exists>c\<in>set (clauses gUnit). shrunk gUnit gUnitFailed c \<and> contradicted gUnitFailed c) \<and>
   unitPropagation (Suc 0) gUnitFailed 0 = Some (Failed (EmptyClause 0), gUnitFailed) \<and>
   unitPropagation (Suc 0) gLateFailed 2 = Some (Failed (OppositeValue 1), gLateFailed) \<and>
   unitPropagation (Suc 0) gChainDone 2 = Some (Done, gChainDone) \<and>
   unitPropagation 2 gChainDone 0 = Some (Done, gChainAgain) \<and>
   propagated gChainAgain 0"
proof -
  have wf: "wellFormed gChain"
    by code_simp
  have v: "0 \<in> set (variables gChain)"
    by code_simp
  have cnt: "enabledCount gChain = 7"
    by code_simp
  have "map_option fst (assignVariable 8 gChain 0 True) = Some Done"
    by code_simp
  then have run: "assignVariable 8 gChain 0 True = Some (Done, gChainDone)"
    unfolding gChainDone_def by (rule verdict_pair)
  note t = assignVariable_contract
    [where g = gChain and v = 0 and b = True and n = 8 and g' = gChainDone and r = Done]
  note t1 = t [THEN conjunct1]
  note t2 = t [THEN conjunct2, THEN conjunct1]
  note t3 = t [THEN conjunct2, THEN conjunct2, THEN conjunct1]
  note t6 = t [THEN conjunct2, THEN conjunct2, THEN conjunct2, THEN conjunct2, THEN conjunct2,
    THEN conjunct1]
  from t1 wf v obtain res
    where res: "\<forall>m. enabledCount gChain < m \<longrightarrow> assignVariable m gChain 0 True = Some res"
    by blast
  from res cnt have "assignVariable 8 gChain 0 True = Some res"
    by simp
  with run have "res = (Done, gChainDone)"
    by simp
  with res have "\<forall>m. enabledCount gChain < m \<longrightarrow>
      assignVariable m gChain 0 True = Some (Done, gChainDone)"
    by simp
  then have total:
    "\<forall>m. m \<le> enabledCount gChain \<or> assignVariable m gChain 0 True = Some (Done, gChainDone)"
    by (metis not_le)
  from t2 run have a: "v_assigned (var_h gChainDone 0)" and b: "v_value (var_h gChainDone 0) = True"
    and cl: "\<forall>e\<in>set (v_allNeighbourEdges (var_h gChainDone 0)).
       e_enabled (edge_h gChainDone e) \<longrightarrow>
       e_type (edge_h gChainDone e) = True \<and>
       \<not> c_enabled (clause_h gChainDone (e_clause (edge_h gChainDone e)))"
    by blast+
  have "4 \<in> set (v_allNeighbourEdges (var_h gChainDone 0)) \<and> e_enabled (edge_h gChainDone 4) \<and>
      e_clause (edge_h gChainDone 4) = 2"
    by code_simp
  with cl have c2: "\<not> c_enabled (clause_h gChainDone 2)"
    by fastforce
  from t3 wf v run
  have fa: "\<forall>e\<in>set (v_allNeighbourEdges (var_h gChain 0)).
         e_enabled (edge_h gChain e) \<and> e_type (edge_h gChain e) \<noteq> True \<longrightarrow>
         \<not> e_enabled (edge_h gChainDone e) \<and> propagated gChainDone (e_clause (edge_h gChain e))"
    and pr: "\<forall>c\<in>set (clauses gChain). shrunk gChain gChainDone c \<longrightarrow> propagated gChainDone c"
    by blast+
  have "0 \<in> set (v_allNeighbourEdges (var_h gChain 0)) \<and> e_enabled (edge_h gChain 0) \<and>
      e_type (edge_h gChain 0) \<noteq> True \<and> e_clause (edge_h gChain 0) = 0"
    by code_simp
  with fa have e0: "\<not> e_enabled (edge_h gChainDone 0)" and p0: "propagated gChainDone 0"
    by fastforce+
  have s1: "shrunk gChain gChainDone 1"
    by code_simp
  have "1 \<in> set (clauses gChain)"
    by code_simp
  with pr s1 have p1: "propagated gChainDone 1"
    by blast
  from t6 wf v run
  have nc: "\<not> (\<exists>c\<in>set (clauses gChain). shrunk gChain gChainDone c \<and> contradicted gChainDone c)"
    by (simp add: a)
  note u = assignVariable_contract
    [where g = gChainDone and v = 0 and b = False and n = 0]
  note u4 = u [THEN conjunct2, THEN conjunct2, THEN conjunct2, THEN conjunct1]
  from u4 a b
  have opp: "assignVariable (Suc 0) gChainDone 0 False = Some (Failed (OppositeValue 0), gChainDone)"
    by simp
  have "map_option fst (assignVariable 7 gLate 0 True) = Some (Failed (OppositeValue 1))"
    by code_simp
  then have late: "assignVariable 7 gLate 0 True = Some (Failed (OppositeValue 1), gLateFailed)"
    unfolding gLateFailed_def by (rule verdict_pair)
  note w = assignVariable_contract
    [where g = gLate and v = 0 and b = True and n = 7 and g' = gLateFailed
       and msg = "OppositeValue 1" and r = "Failed (OppositeValue 1)"]
  note w5 = w [THEN conjunct2, THEN conjunct2, THEN conjunct2, THEN conjunct2, THEN conjunct1]
  note w6 = w [THEN conjunct2, THEN conjunct2, THEN conjunct2, THEN conjunct2, THEN conjunct2,
    THEN conjunct1]
  from w5 late have "(\<exists>w. OppositeValue 1 = OppositeValue w \<and> v_assigned (var_h gLateFailed w) \<and>
         (\<exists>c e. GetEnabledEdges gLateFailed c = [e] \<and> e_variable (edge_h gLateFailed e) = w \<and>
                e_type (edge_h gLateFailed e) \<noteq> v_value (var_h gLateFailed w)))"
    by simp
  then have la: "v_assigned (var_h gLateFailed 1)"
    and lb: "\<exists>c e. GetEnabledEdges gLateFailed c = [e] \<and> e_variable (edge_h gLateFailed e) = 1 \<and>
          e_type (edge_h gLateFailed e) \<noteq> v_value (var_h gLateFailed 1)"
    by auto
  have wfl: "wellFormed gLate \<and> 0 \<in> set (variables gLate) \<and> \<not> v_assigned (var_h gLate 0)"
    by code_simp
  with w6 late
  have lc: "\<exists>c\<in>set (clauses gLate). shrunk gLate gLateFailed c \<and> contradicted gLateFailed c"
    by simp
  have "map_option fst (assignVariable 2 gUnit 0 True) = Some (Failed (EmptyClause 0))"
    by code_simp
  then have unit: "assignVariable 2 gUnit 0 True = Some (Failed (EmptyClause 0), gUnitFailed)"
    unfolding gUnitFailed_def by (rule verdict_pair)
  note x = assignVariable_contract
    [where g = gUnit and v = 0 and b = True and n = 2 and g' = gUnitFailed
       and msg = "EmptyClause 0" and r = "Failed (EmptyClause 0)"]
  note x5 = x [THEN conjunct2, THEN conjunct2, THEN conjunct2, THEN conjunct2, THEN conjunct1]
  note x6 = x [THEN conjunct2, THEN conjunct2, THEN conjunct2, THEN conjunct2, THEN conjunct2,
    THEN conjunct1]
  from x5 unit have ua: "GetEnabledEdges gUnitFailed 0 = []"
    by simp
  have wfu: "wellFormed gUnit \<and> 0 \<in> set (variables gUnit) \<and> \<not> v_assigned (var_h gUnit 0)"
    by code_simp
  with x6 unit
  have ub: "\<exists>c\<in>set (clauses gUnit). shrunk gUnit gUnitFailed c \<and> contradicted gUnitFailed c"
    by simp
  note y = assignVariable_contract [where g = gUnitFailed and c = 0 and n = "Suc 0"]
  note y7 = y [THEN conjunct2, THEN conjunct2, THEN conjunct2, THEN conjunct2, THEN conjunct2,
    THEN conjunct2, THEN conjunct1]
  from y7 ua
  have up0: "unitPropagation (Suc 0) gUnitFailed 0 = Some (Failed (EmptyClause 0), gUnitFailed)"
    by simp
  have one: "GetEnabledEdges gLateFailed 2 = [4] \<and> e_variable (edge_h gLateFailed 4) = 1 \<and>
      e_type (edge_h gLateFailed 4) = False \<and> v_value (var_h gLateFailed 1) = True"
    by code_simp
  note z = assignVariable_contract
    [where g = gLateFailed and c = 2 and n = "Suc 0" and e = 4 and v = 1 and b = False]
  note z4 = z [THEN conjunct2, THEN conjunct2, THEN conjunct2, THEN conjunct1]
  note z8 = z [THEN conjunct2, THEN conjunct2, THEN conjunct2, THEN conjunct2, THEN conjunct2,
    THEN conjunct2, THEN conjunct2, THEN conjunct1]
  from z4 la one
  have "assignVariable (Suc 0) gLateFailed 1 False = Some (Failed (OppositeValue 1), gLateFailed)"
    by simp
  with z8 one
  have up1: "unitPropagation (Suc 0) gLateFailed 2 = Some (Failed (OppositeValue 1), gLateFailed)"
    by simp
  have many: "2 \<le> length (GetEnabledEdges gChainDone 2)"
    by code_simp
  note p = assignVariable_contract [where g = gChainDone and c = 2 and n = "Suc 0"]
  note p9 = p [THEN conjunct2, THEN conjunct2, THEN conjunct2, THEN conjunct2, THEN conjunct2,
    THEN conjunct2, THEN conjunct2, THEN conjunct2, THEN conjunct1]
  from p9 many have up2: "unitPropagation (Suc 0) gChainDone 2 = Some (Done, gChainDone)"
    by simp
  have "map_option fst (unitPropagation 2 gChainDone 0) = Some Done"
    by code_simp
  then have again: "unitPropagation 2 gChainDone 0 = Some (Done, gChainAgain)"
    unfolding gChainAgain_def by (rule verdict_pair)
  have wfd: "wellFormed gChainDone \<and> 0 \<in> set (clauses gChainDone)"
    by code_simp
  note q = assignVariable_contract
    [where g = gChainDone and c = 0 and n = 2 and g' = gChainAgain]
  note q10 = q [THEN conjunct2, THEN conjunct2, THEN conjunct2, THEN conjunct2, THEN conjunct2,
    THEN conjunct2, THEN conjunct2, THEN conjunct2, THEN conjunct2]
  from q10 wfd again have pa: "propagated gChainAgain 0"
    by simp
  from wf v total a b c2 e0 p0 s1 p1 nc opp late la lb lc unit ua ub up0 up1 up2 again pa
  show ?thesis
    by (intro conjI)
qed

end
